theory Spec2Isabelle
  imports Complex_Main "HOL-Library.Multiset" "HOL-Library.List_Lexorder" "HOL-Library.Char_ord" "HOL-Library.Sublist"
begin

section \<open>Attendance server: data model\<close>

text \<open>
  The repository holds three variants of one REST service: a file-backed one
  (first part of \<^verbatim>\<open>src/unnamed/part_000\<close>, suffix \<open>_file\<close> below), a MongoDB one
  (\<^verbatim>\<open>src/main.js\<close>, suffix \<open>_main\<close>) and a hardened MongoDB one (second part of
  \<^verbatim>\<open>src/unnamed/part_000\<close>, suffix \<open>_hardened\<close>).

  A Mongoose sub-document of the attendance schema has three \<open>String\<close> paths, none of
  them required in \<^verbatim>\<open>main.js\<close>: a path that was never set reads as \<open>undefined\<close>,
  which is \<open>None\<close> here.
\<close>

record attendanceRecord =
  name :: "string option"
  status :: "string option"
  timestamp :: "string option"

record sheet =
  date :: string
  records :: "attendanceRecord list"

text \<open>A MongoDB collection is the list of its documents in natural (insertion) order.\<close>

type_synonym attendanceStore = "sheet list"

section \<open>JavaScript numbers\<close>

text \<open>
  The handlers compute \<^verbatim>\<open>Math.round((presentCount / total) * 100)\<close> on IEEE-754
  doubles. A finite non-negative double is \<open>Dbl m e\<close>, the number \<open>m * 2^e\<close>; the
  counts are far from the overflow and subnormal ranges, which are left out.
  \<open>nearestDouble a b\<close> is the double nearest to the fraction \<open>a / b\<close>: 53 significant
  bits, ties to even. \<open>binExponent a b\<close> is the \<open>e\<close> with \<open>2^e \<le> a / b < 2^(e+1)\<close>.
\<close>

datatype double = DNaN | DInf | Dbl int int

function bitlen :: "int \<Rightarrow> nat" where
  "bitlen n = (if n \<le> 0 then 0 else Suc (bitlen (n div 2)))"
  by pat_completeness auto
termination
  by (relation "measure nat") auto

declare bitlen.simps [simp del]

definition binExponent :: "int \<Rightarrow> int \<Rightarrow> int" where
  "binExponent a b =
     (let d = int (bitlen b) - int (bitlen a)
      in if (if 0 \<le> d then b \<le> a * 2 ^ nat d else b * 2 ^ nat (- d) \<le> a)
         then - d else - d - 1)"

definition roundHalfEvenDiv :: "int \<Rightarrow> int \<Rightarrow> int" where
  "roundHalfEvenDiv num den =
     (let n = num div den; r = num mod den
      in if 2 * r < den then n
         else if den < 2 * r then n + 1
         else if even n then n else n + 1)"

definition nearestDouble :: "int \<Rightarrow> int \<Rightarrow> double" where
  "nearestDouble a b =
     (if a = 0 then Dbl 0 0
      else let s = 52 - binExponent a b;
               m = (if 0 \<le> s then roundHalfEvenDiv (a * 2 ^ nat s) b
                    else roundHalfEvenDiv a (b * 2 ^ nat (- s)))
           in Dbl m (- s))"

text \<open>Division and multiplication of non-negative doubles, and \<^verbatim>\<open>Math.round\<close>.\<close>

fun js_div :: "double \<Rightarrow> double \<Rightarrow> double" where
  "js_div (Dbl m1 e1) (Dbl m2 e2) =
     (if m2 = 0 then (if m1 = 0 then DNaN else DInf)
      else nearestDouble (m1 * 2 ^ nat (e1 - e2)) (m2 * 2 ^ nat (e2 - e1)))"
| "js_div (Dbl m1 e1) DInf = Dbl 0 0"
| "js_div DInf (Dbl m2 e2) = DInf"
| "js_div _ _ = DNaN"

fun js_mul :: "double \<Rightarrow> double \<Rightarrow> double" where
  "js_mul (Dbl m1 e1) (Dbl m2 e2) =
     nearestDouble (m1 * m2 * 2 ^ nat (e1 + e2)) (2 ^ nat (- (e1 + e2)))"
| "js_mul DInf (Dbl m2 e2) = (if m2 = 0 then DNaN else DInf)"
| "js_mul (Dbl m1 e1) DInf = (if m1 = 0 then DNaN else DInf)"
| "js_mul DInf DInf = DInf"
| "js_mul _ _ = DNaN"

text \<open>\<^verbatim>\<open>Math.round(x)\<close> is \<open>floor (x + 1/2)\<close>, computed exactly.\<close>

fun math_round :: "double \<Rightarrow> double" where
  "math_round (Dbl m e) =
     (if 0 \<le> e then Dbl (m * 2 ^ nat e) 0
      else Dbl ((2 * m + 2 ^ nat (- e)) div 2 ^ (nat (- e) + 1)) 0)"
| "math_round DInf = DInf"
| "math_round DNaN = DNaN"

definition toNumber :: "nat \<Rightarrow> double" where
  "toNumber n = Dbl (int n) 0"

text \<open>\<^verbatim>\<open>Math.round((p / t) * 100)\<close> for two counts.\<close>

definition ratePercent :: "nat \<Rightarrow> nat \<Rightarrow> double" where
  "ratePercent p t = math_round (js_mul (js_div (toNumber p) (toNumber t)) (toNumber 100))"

section \<open>Counting\<close>

text \<open>\<^verbatim>\<open>records.filter(r => r.status === 'Present').length\<close>\<close>

definition presentCount :: "attendanceRecord list \<Rightarrow> nat" where
  "presentCount rs = length (filter (\<lambda>r. status r = Some ''Present'') rs)"

section \<open>Dates\<close>

text \<open>
  \<^verbatim>\<open>new Date(s)\<close> on a string parses it. The model covers the date-only form
  \<^verbatim>\<open>YYYY-MM-DD\<close> of ECMAScript's date-time string format with a day that exists in the
  calendar, which is read as midnight UTC; \<open>dateValue\<close> is then the time value in
  milliseconds. For every other string \<open>dateValue\<close> is \<open>None\<close>, which the comparators
  below read as the time value \<open>NaN\<close>. That is what Node gives for a string it cannot
  parse, but Node also reads forms that are not covered here (\<^verbatim>\<open>2024-2-1\<close>,
  \<^verbatim>\<open>01/31/2024\<close>, \<^verbatim>\<open>2024-02-30\<close>), in ways the language standard leaves to the
  implementation; for those the model says nothing, and every result below that involves
  a \<^verbatim>\<open>Date\<close> comparison is stated for dates of the covered form.
\<close>

definition isDigit :: "char \<Rightarrow> bool" where
  "isDigit c = (CHR ''0'' \<le> c \<and> c \<le> CHR ''9'')"

definition digitVal :: "char \<Rightarrow> nat" where
  "digitVal c = of_char c - 48"

fun parseIsoDate :: "string \<Rightarrow> (nat \<times> nat \<times> nat) option" where
  "parseIsoDate [y1, y2, y3, y4, s1, m1, m2, s2, d1, d2] =
     (if list_all isDigit [y1, y2, y3, y4, m1, m2, d1, d2] \<and> s1 = CHR ''-'' \<and> s2 = CHR ''-''
      then Some (1000 * digitVal y1 + 100 * digitVal y2 + 10 * digitVal y3 + digitVal y4,
                 10 * digitVal m1 + digitVal m2,
                 10 * digitVal d1 + digitVal d2)
      else None)"
| "parseIsoDate _ = None"

definition isLeap :: "nat \<Rightarrow> bool" where
  "isLeap y = (y mod 4 = 0 \<and> (y mod 100 \<noteq> 0 \<or> y mod 400 = 0))"

definition daysInMonth :: "nat \<Rightarrow> nat \<Rightarrow> nat" where
  "daysInMonth y m =
     (if m = 2 then (if isLeap y then 29 else 28)
      else if m = 4 \<or> m = 6 \<or> m = 9 \<or> m = 11 then 30 else 31)"

text \<open>ECMAScript's \<open>DayFromYear\<close>: the day number of 1 January of year \<open>y\<close>.\<close>

definition dayFromYear :: "nat \<Rightarrow> int" where
  "dayFromYear y =
     365 * (int y - 1970) + (int y - 1969) div 4 - (int y - 1901) div 100
       + (int y - 1601) div 400"

definition dayWithinYear :: "nat \<Rightarrow> nat \<Rightarrow> nat \<Rightarrow> nat" where
  "dayWithinYear y m d = sum_list (map (daysInMonth y) [1..<m]) + (d - 1)"

definition msPerDay :: int where
  "msPerDay = 86400000"

definition validYmd :: "nat \<times> nat \<times> nat \<Rightarrow> bool" where
  "validYmd ymd = (case ymd of (y, m, d) \<Rightarrow> 1 \<le> m \<and> m \<le> 12 \<and> 1 \<le> d \<and> d \<le> daysInMonth y m)"

definition timeOfYmd :: "nat \<times> nat \<times> nat \<Rightarrow> int" where
  "timeOfYmd ymd = (case ymd of (y, m, d) \<Rightarrow> (dayFromYear y + int (dayWithinYear y m d)) * msPerDay)"

definition dateValue :: "string \<Rightarrow> int option" where
  "dateValue s =
     (case parseIsoDate s of
        None \<Rightarrow> None
      | Some ymd \<Rightarrow> if validYmd ymd then Some (timeOfYmd ymd) else None)"

text \<open>
  Auxiliary notions for comparing dates: the eight digits of a date read as one decimal
  number, the length of a year, and the number of days before a month.
\<close>

definition ymdKey :: "nat \<times> nat \<times> nat \<Rightarrow> nat" where
  "ymdKey ymd = (case ymd of (y, m, d) \<Rightarrow> y * 10000 + m * 100 + d)"

fun decVal :: "nat list \<Rightarrow> nat" where
  "decVal [] = 0"
| "decVal (x # xs) = x * 10 ^ length xs + decVal xs"

definition daysInYear :: "nat \<Rightarrow> nat" where
  "daysInYear y = (if isLeap y then 366 else 365)"

definition monthStart :: "nat \<Rightarrow> nat \<Rightarrow> nat" where
  "monthStart y m = sum_list (map (daysInMonth y) [1..<m])"

text \<open>
  \<^verbatim>\<open>new Date(b) - new Date(a)\<close>: the difference of the two time values, \<open>NaN\<close>
  (\<open>None\<close>) when one of them is.
\<close>

definition dateDiff :: "string \<Rightarrow> string \<Rightarrow> int option" where
  "dateDiff b a =
     (case (dateValue b, dateValue a) of
        (Some tb, Some ta) \<Rightarrow> Some (tb - ta)
      | _ \<Rightarrow> None)"

section \<open>Sorting\<close>

text \<open>
  \<^verbatim>\<open>Array.prototype.sort(comparefn)\<close> is stable, and reads a comparator result of
  \<open>NaN\<close> as \<open>+0\<close> (the two elements compare equal). With a consistent comparator the
  result is determined: the stable sort, written here as insertion from the right. A
  comparator that answers \<open>NaN\<close> for some pairs only is not consistent, and the order is
  then left to the implementation; the model gives one admissible order, and no result
  below relies on it.
\<close>

definition compareResult :: "int option \<Rightarrow> int" where
  "compareResult v = (case v of None \<Rightarrow> 0 | Some n \<Rightarrow> n)"

fun insertBy :: "('a \<Rightarrow> 'a \<Rightarrow> int option) \<Rightarrow> 'a \<Rightarrow> 'a list \<Rightarrow> 'a list" where
  "insertBy cmp x [] = [x]"
| "insertBy cmp x (y # ys) =
     (if compareResult (cmp x y) \<le> 0 then x # y # ys else y # insertBy cmp x ys)"

definition jsSort :: "('a \<Rightarrow> 'a \<Rightarrow> int option) \<Rightarrow> 'a list \<Rightarrow> 'a list" where
  "jsSort cmp xs = foldr (insertBy cmp) xs []"

text \<open>
  MongoDB's \<^verbatim>\<open>sort({ date: -1 })\<close> orders the documents by the \<open>date\<close> string,
  descending, strings compared code unit by code unit (the lexicographic order of
  \<open>string\<close>).
\<close>

definition mongoSortDateDesc :: "attendanceStore \<Rightarrow> attendanceStore" where
  "mongoSortDateDesc st = rev (sort_key date st)"

section \<open>JavaScript values and strings\<close>

text \<open>
  A parsed JSON value, with \<open>Undefined\<close> for what reading a missing property gives.
  The file variant stores request bodies as they come, so its files hold any JSON.
\<close>

datatype js =
  Undefined | Null | JBool bool | JNum rat | JStr string | JArr "js list"
  | JObj "(string \<times> js) list"

text \<open>Truthiness, as \<^verbatim>\<open>!x\<close> and \<^verbatim>\<open>if (x)\<close> read it.\<close>

fun truthy :: "js \<Rightarrow> bool" where
  "truthy Undefined = False"
| "truthy Null = False"
| "truthy (JBool b) = b"
| "truthy (JNum n) = (n \<noteq> 0)"
| "truthy (JStr s) = (s \<noteq> [])"
| "truthy (JArr xs) = True"
| "truthy (JObj kvs) = True"

fun isArray :: "js \<Rightarrow> bool" where
  "isArray (JArr xs) = True"
| "isArray _ = False"

text \<open>
  Reading one of the properties the handlers read (\<open>date\<close>, \<open>records\<close>, \<open>name\<close>,
  \<open>status\<close>, \<open>timestamp\<close>, \<open>studentIds\<close>): a \<open>TypeError\<close> (\<open>None\<close>) on \<open>null\<close> and
  \<open>undefined\<close>, the member of an object (the last one of that key, as \<^verbatim>\<open>JSON.parse\<close>
  keeps it), and \<open>undefined\<close> on every other value, none of which has such a property.
\<close>

fun field :: "js \<Rightarrow> string \<Rightarrow> js option" where
  "field Undefined k = None"
| "field Null k = None"
| "field (JObj kvs) k = (case map_of (rev kvs) k of None \<Rightarrow> Some Undefined | Some v \<Rightarrow> Some v)"
| "field _ k = Some Undefined"

text \<open>
  A \<open>string\<close> is the sequence of the UTF-16 code units of a JavaScript string, each
  below 256 (the Latin-1 range); a string with a code unit beyond that range is not a
  value of the model. On this range \<^verbatim>\<open>toLowerCase\<close> changes the letters \<open>A\<close> to
  \<open>Z\<close> and U+00C0 to U+00DE except the multiplication sign U+00D7, and \<^verbatim>\<open>trim\<close>
  strips ECMAScript's white space and line terminators: U+0009 to U+000D, U+0020 and
  U+00A0.
\<close>

definition isUpper :: "char \<Rightarrow> bool" where
  "isUpper c =
     ((CHR ''A'' \<le> c \<and> c \<le> CHR ''Z'')
      \<or> (CHR 0xC0 \<le> c \<and> c \<le> CHR 0xDE \<and> c \<noteq> CHR 0xD7))"

text \<open>An upper-case letter of this range becomes lower-case by setting bit 5 (adding 32).\<close>

fun lowerChar :: "char \<Rightarrow> char" where
  "lowerChar (Char b0 b1 b2 b3 b4 b5 b6 b7) =
     (if isUpper (Char b0 b1 b2 b3 b4 b5 b6 b7) then Char b0 b1 b2 b3 b4 True b6 b7
      else Char b0 b1 b2 b3 b4 b5 b6 b7)"

definition toLowerCase :: "string \<Rightarrow> string" where
  "toLowerCase s = map lowerChar s"

definition isSpace :: "char \<Rightarrow> bool" where
  "isSpace c =
     (c \<in> set [CHR '' '', CHR 0x09, CHR 0x0A, CHR 0x0B, CHR 0x0C, CHR 0x0D, CHR 0xA0])"

definition trim :: "string \<Rightarrow> string" where
  "trim s = rev (dropWhile isSpace (rev (dropWhile isSpace s)))"

text \<open>\<^verbatim>\<open>s.includes(q)\<close>: \<open>q\<close> occurs in \<open>s\<close> as a contiguous substring.\<close>

fun includesStr :: "string \<Rightarrow> string \<Rightarrow> bool" where
  "includesStr [] q = (q = [])"
| "includesStr (c # s) q = (prefix q (c # s) \<or> includesStr s q)"

section \<open>Per-date summaries\<close>

record 'd summary =
  sdate :: 'd
  totalStudents :: nat
  present :: nat
  absent :: nat
  attendanceRate :: double

text \<open>The \<^verbatim>\<open>map\<close> callback of \<^verbatim>\<open>GET /api/attendance\<close> in both MongoDB variants.\<close>

definition summaryOf :: "sheet \<Rightarrow> string summary" where
  "summaryOf attendance =
     (let pc = presentCount (records attendance);
          total = length (records attendance);
          rate = (if total > 0 then ratePercent pc total else toNumber 0)
      in \<lparr>sdate = date attendance, totalStudents = total, present = pc,
          absent = total - pc, attendanceRate = rate\<rparr>)"

text \<open>\<^verbatim>\<open>main.js\<close> sorts the summaries with \<^verbatim>\<open>(a, b) => new Date(b.date) - new Date(a.date)\<close>.\<close>

definition listSummaries_main :: "attendanceStore \<Rightarrow> string summary list" where
  "listSummaries_main allAttendance =
     jsSort (\<lambda>a b. dateDiff (sdate b) (sdate a)) (map summaryOf allAttendance)"

text \<open>The hardened variant lets MongoDB sort the sheets and maps them in that order.\<close>

definition listSummaries_hardened :: "attendanceStore \<Rightarrow> string summary list" where
  "listSummaries_hardened st = map summaryOf (mongoSortDateDesc st)"

subsection \<open>File variant\<close>

text \<open>
  The data directory: file names with their parsed contents, in the order in which the
  reads complete (the handlers start one asynchronous read per file and collect the
  results as they arrive).
\<close>

type_synonym dataDir = "(string \<times> js) list"

definition isAttendanceFile :: "string \<Rightarrow> bool" where
  "isAttendanceFile file = (prefix ''attendance-'' file \<and> suffix ''.json'' file)"

definition attendanceFiles :: "dataDir \<Rightarrow> dataDir" where
  "attendanceFiles dir = filter (\<lambda>(file, content). isAttendanceFile file) dir"

text \<open>A property of a value that is known not to be \<open>null\<close> or \<open>undefined\<close>.\<close>

definition getProp :: "js \<Rightarrow> string \<Rightarrow> js" where
  "getProp v k = (case field v k of None \<Rightarrow> Undefined | Some x \<Rightarrow> x)"

text \<open>
  \<^verbatim>\<open>records.filter(r => r.status === s).length\<close>: \<open>None\<close> when a record is \<open>null\<close>,
  where reading \<open>r.status\<close> throws.
\<close>

definition countStatus :: "string \<Rightarrow> js list \<Rightarrow> nat option" where
  "countStatus s rs =
     (case those (map (\<lambda>r. field r ''status'') rs) of
        None \<Rightarrow> None
      | Some sts \<Rightarrow> Some (length (filter (\<lambda>v. v = JStr s) sts)))"

text \<open>
  The body of the \<^verbatim>\<open>try\<close> block of the file variant's summary: \<open>None\<close> when it
  throws (no \<open>records\<close> array, a \<open>null\<close> record), and the file is then skipped.
\<close>

definition fileSummary :: "js \<Rightarrow> js summary option" where
  "fileSummary attendanceData =
     (case field attendanceData ''records'' of
        Some (JArr rs) \<Rightarrow>
          (case (countStatus ''Present'' rs, countStatus ''Absent'' rs) of
             (Some pc, Some ac) \<Rightarrow>
               Some \<lparr>sdate = getProp attendanceData ''date'', totalStudents = length rs,
                     present = pc, absent = ac, attendanceRate = ratePercent pc (length rs)\<rparr>
           | _ \<Rightarrow> None)
      | _ \<Rightarrow> None)"

definition dateValueJs :: "js \<Rightarrow> int option" where
  "dateValueJs v = (case v of JStr s \<Rightarrow> dateValue s | _ \<Rightarrow> None)"

definition dateDiffJs :: "js \<Rightarrow> js \<Rightarrow> int option" where
  "dateDiffJs b a =
     (case (dateValueJs b, dateValueJs a) of
        (Some tb, Some ta) \<Rightarrow> Some (tb - ta)
      | _ \<Rightarrow> None)"

definition listSummaries_file :: "dataDir \<Rightarrow> js summary list" where
  "listSummaries_file dir =
     (let files = attendanceFiles dir
      in if length files = 0 then []
         else jsSort (\<lambda>a b. dateDiffJs (sdate b) (sdate a))
                (List.map_filter (\<lambda>(file, content). fileSummary content) files))"

text \<open>A typed sheet as the JSON document the clients post.\<close>

definition optJson :: "string option \<Rightarrow> (string \<times> js) list \<Rightarrow> string \<Rightarrow> (string \<times> js) list" where
  "optJson v kvs k = (case v of None \<Rightarrow> kvs | Some s \<Rightarrow> (k, JStr s) # kvs)"

definition recordJson :: "attendanceRecord \<Rightarrow> js" where
  "recordJson r =
     JObj (optJson (name r) (optJson (status r) (optJson (timestamp r) [] ''timestamp'') ''status'')
             ''name'')"

definition sheetJson :: "sheet \<Rightarrow> js" where
  "sheetJson a = JObj [(''date'', JStr (date a)), (''records'', JArr (map recordJson (records a)))]"

definition sheetFile :: "sheet \<Rightarrow> string \<times> js" where
  "sheetFile a = (''attendance-'' @ date a @ ''.json'', sheetJson a)"

section \<open>Overview (main.js, hardened)\<close>

record overview =
  totalRecords :: nat
  averageAttendance :: double
  totalClasses :: nat

text \<open>
  The \<^verbatim>\<open>forEach\<close> of both MongoDB variants adds each sheet's present count and
  record count to two running totals.
\<close>

definition overviewTotals :: "attendanceStore \<Rightarrow> nat \<times> nat" where
  "overviewTotals allAttendance =
     foldl (\<lambda>(totalPresent, totalStudents) attendance.
              (totalPresent + presentCount (records attendance),
               totalStudents + length (records attendance)))
           (0, 0) allAttendance"

definition overview_main :: "attendanceStore \<Rightarrow> overview" where
  "overview_main allAttendance =
     (if length allAttendance = 0
      then \<lparr>totalRecords = 0, averageAttendance = toNumber 0, totalClasses = 0\<rparr>
      else let (totalPresent, totalStudents) = overviewTotals allAttendance;
               avg = (if totalStudents > 0 then ratePercent totalPresent totalStudents
                      else toNumber 0)
           in \<lparr>totalRecords = length allAttendance, averageAttendance = avg,
               totalClasses = length allAttendance\<rparr>)"

text \<open>
  The hardened variant counts the documents, returns early when there is none, and
  otherwise reports the two totals as well (\<open>totalPresent\<close> is missing from the early
  response).
\<close>

record overviewHardened =
  hTotalRecords :: nat
  hAverageAttendance :: double
  hTotalClasses :: nat
  hTotalStudents :: nat
  hTotalPresent :: "nat option"

definition overview_hardened :: "attendanceStore \<Rightarrow> overviewHardened" where
  "overview_hardened allAttendance =
     (let totalRecords = length allAttendance
      in if totalRecords = 0
         then \<lparr>hTotalRecords = 0, hAverageAttendance = toNumber 0, hTotalClasses = 0,
               hTotalStudents = 0, hTotalPresent = None\<rparr>
         else let (totalPresent, totalStudents) = overviewTotals allAttendance;
                  avg = (if totalStudents > 0 then ratePercent totalPresent totalStudents
                         else toNumber 0)
              in \<lparr>hTotalRecords = totalRecords, hAverageAttendance = avg,
                  hTotalClasses = totalRecords, hTotalStudents = totalStudents,
                  hTotalPresent = Some totalPresent\<rparr>)"

text \<open>
  The sums the specification speaks of, and its average: the exact quotient of the two
  sums times 100, rounded to the nearest whole number (a half rounds up), and 0 when
  there is no sheet or no record. \<open>halfway\<close> holds when the exact percentage lies
  halfway between two whole numbers.
\<close>

definition sumPresent :: "attendanceStore \<Rightarrow> nat" where
  "sumPresent st = sum_list (map (\<lambda>a. presentCount (records a)) st)"

definition sumTotal :: "attendanceStore \<Rightarrow> nat" where
  "sumTotal st = sum_list (map (\<lambda>a. length (records a)) st)"

definition roundHalfUp :: "rat \<Rightarrow> int" where
  "roundHalfUp x = \<lfloor>x + 1 / 2\<rfloor>"

definition exactPercent :: "nat \<Rightarrow> nat \<Rightarrow> rat" where
  "exactPercent p t = of_nat p / of_nat t * 100"

definition specAverage :: "attendanceStore \<Rightarrow> int" where
  "specAverage st =
     (if length st = 0 \<or> sumTotal st = 0 then 0
      else roundHalfUp (exactPercent (sumPresent st) (sumTotal st)))"

definition halfway :: "attendanceStore \<Rightarrow> bool" where
  "halfway st =
     (let x = exactPercent (sumPresent st) (sumTotal st) in x - of_int \<lfloor>x\<rfloor> = 1 / 2)"

text \<open>A record with a given status, and a sheet of \<open>p\<close> present among \<open>t\<close> records.\<close>

definition mkRecord :: "string \<Rightarrow> string \<Rightarrow> attendanceRecord" where
  "mkRecord n s = \<lparr>name = Some n, status = Some s, timestamp = None\<rparr>"

definition mkSheet :: "string \<Rightarrow> nat \<Rightarrow> nat \<Rightarrow> sheet" where
  "mkSheet d p t =
     \<lparr>date = d,
      records = replicate p (mkRecord ''s'' ''Present'') @ replicate (t - p) (mkRecord ''s'' ''Absent'')\<rparr>"

section \<open>Search by student name\<close>

datatype failure = BadRequest | NotFound | InternalError

record ('d, 'v) searchHit =
  hdate :: 'd
  hname :: 'v
  hstatus :: 'v
  htimestamp :: 'v

text \<open>
  \<^verbatim>\<open>main.js\<close>: the inner \<^verbatim>\<open>forEach\<close> over the records of the sheet dated \<open>d\<close>, with
  the lower-cased query \<open>q\<close>. \<^verbatim>\<open>record.name.toLowerCase()\<close> throws on a record
  without a name (\<open>None\<close>), which ends the request with status 500.
\<close>

fun searchRecords ::
  "string \<Rightarrow> string \<Rightarrow> attendanceRecord list \<Rightarrow> (string, string option) searchHit list option"
where
  "searchRecords q d [] = Some []"
| "searchRecords q d (r # rs) =
     (case name r of
        None \<Rightarrow> None
      | Some n \<Rightarrow>
          (case searchRecords q d rs of
             None \<Rightarrow> None
           | Some hits \<Rightarrow>
               Some (if includesStr (toLowerCase n) q
                     then \<lparr>hdate = d, hname = name r, hstatus = status r,
                           htimestamp = timestamp r\<rparr> # hits
                     else hits)))"

fun searchSheets ::
  "string \<Rightarrow> attendanceStore \<Rightarrow> (string, string option) searchHit list option"
where
  "searchSheets q [] = Some []"
| "searchSheets q (a # as) =
     (case searchRecords q (date a) (records a) of
        None \<Rightarrow> None
      | Some hits \<Rightarrow>
          (case searchSheets q as of None \<Rightarrow> None | Some rest \<Rightarrow> Some (hits @ rest)))"

definition searchByName_main ::
  "string \<Rightarrow> attendanceStore \<Rightarrow> failure + (string, string option) searchHit list"
where
  "searchByName_main studentName allAttendance =
     (case searchSheets (toLowerCase studentName) allAttendance of
        None \<Rightarrow> Inl InternalError
      | Some studentRecords \<Rightarrow>
          Inr (jsSort (\<lambda>a b. dateDiff (hdate b) (hdate a)) studentRecords))"

subsection \<open>File variant\<close>

text \<open>
  \<^verbatim>\<open>records.find(r => r.name.toLowerCase().includes(q))\<close>: the first record whose
  callback is true, \<open>Some None\<close> when there is none, and \<open>None\<close> when the callback
  throws before that (a \<open>null\<close> record, a name that is not a string).
\<close>

fun findRecord :: "string \<Rightarrow> js list \<Rightarrow> js option option" where
  "findRecord q [] = Some None"
| "findRecord q (r # rs) =
     (case field r ''name'' of
        Some (JStr n) \<Rightarrow> if includesStr (toLowerCase n) q then Some (Some r) else findRecord q rs
      | _ \<Rightarrow> None)"

text \<open>What one file adds to \<open>studentRecords\<close>; nothing when the \<^verbatim>\<open>try\<close> block throws.\<close>

definition fileHits :: "string \<Rightarrow> js \<Rightarrow> (js, js) searchHit list" where
  "fileHits q attendanceData =
     (case field attendanceData ''records'' of
        Some (JArr rs) \<Rightarrow>
          (case findRecord q rs of
             Some (Some studentRecord) \<Rightarrow>
               [\<lparr>hdate = getProp attendanceData ''date'', hname = getProp studentRecord ''name'',
                 hstatus = getProp studentRecord ''status'',
                 htimestamp = getProp studentRecord ''timestamp''\<rparr>]
           | _ \<Rightarrow> [])
      | _ \<Rightarrow> [])"

definition searchByName_file :: "string \<Rightarrow> dataDir \<Rightarrow> (js, js) searchHit list" where
  "searchByName_file studentName dir =
     (let files = attendanceFiles dir
      in if length files = 0 then []
         else jsSort (\<lambda>a b. dateDiffJs (hdate b) (hdate a))
                (concat (map (\<lambda>(file, content). fileHits (toLowerCase studentName) content) files)))"

text \<open>The specification's result: every matching record of every sheet, flattened.\<close>

definition nameMatches :: "string \<Rightarrow> attendanceRecord \<Rightarrow> bool" where
  "nameMatches query r =
     (case name r of None \<Rightarrow> False
      | Some n \<Rightarrow> includesStr (toLowerCase n) (toLowerCase query))"

definition allMatches :: "string \<Rightarrow> attendanceStore \<Rightarrow> (string, string option) searchHit list" where
  "allMatches query st =
     concat (map (\<lambda>a. map (\<lambda>r. \<lparr>hdate = date a, hname = name r, hstatus = status r,
                                  htimestamp = timestamp r\<rparr>)
                          (filter (nameMatches query) (records a))) st)"

section \<open>Saving and reading sheets\<close>

text \<open>\<^verbatim>\<open>Attendance.findOne({ date })\<close>: the first document with that date.\<close>

definition findOne :: "string \<Rightarrow> attendanceStore \<Rightarrow> sheet option" where
  "findOne d st = find (\<lambda>a. date a = d) st"

text \<open>Writing new records into the first document dated \<open>d\<close>.\<close>

fun replaceRecords :: "string \<Rightarrow> attendanceRecord list \<Rightarrow> attendanceStore \<Rightarrow> attendanceStore" where
  "replaceRecords d rs [] = []"
| "replaceRecords d rs (a # as) =
     (if date a = d then a\<lparr>records := rs\<rparr> # as else a # replaceRecords d rs as)"

text \<open>
  Lines 90 to 100 of \<^verbatim>\<open>main.js\<close>: update the existing document, or save a new one.
  The hardened variant's \<^verbatim>\<open>findOneAndUpdate\<close> with \<^verbatim>\<open>upsert: true\<close> does the same in
  one call.
\<close>

definition storeSheet :: "sheet \<Rightarrow> attendanceStore \<Rightarrow> attendanceStore" where
  "storeSheet attendanceData st =
     (case findOne (date attendanceData) st of
        Some existingAttendance \<Rightarrow> replaceRecords (date attendanceData) (records attendanceData) st
      | None \<Rightarrow> st @ [attendanceData])"

text \<open>
  \<^verbatim>\<open>POST /api/attendance\<close> of \<^verbatim>\<open>main.js\<close> on a typed body: the check
  \<^verbatim>\<open>!date || !records\<close> fails on the empty date only, an array being truthy.
\<close>

definition upsertSheet_main :: "sheet \<Rightarrow> attendanceStore \<Rightarrow> (failure + string) \<times> attendanceStore" where
  "upsertSheet_main attendanceData st =
     (if date attendanceData = [] then (Inl BadRequest, st)
      else (Inr (date attendanceData), storeSheet attendanceData st))"

text \<open>
  The same handler on any JSON body; the body parser delivers an object or an array, so
  reading a property of the body does not throw.
\<close>

definition saveGuard :: "js \<Rightarrow> bool" where
  "saveGuard attendanceData =
     (\<not> (\<not> truthy (getProp attendanceData ''date'') \<or> \<not> truthy (getProp attendanceData ''records'')))"

text \<open>
  What Mongoose makes of the body. Both branches of the handler hand \<open>records\<close> to the
  schema path \<^verbatim>\<open>records: [{ name: String, status: String, timestamp: String }]\<close>, an
  array of sub-documents:

    \<^item> a value that is not an array is first wrapped into an array of one element;
    \<^item> an element that is an object becomes a sub-document with the three paths of the
      schema, every other property being dropped;
    \<^item> an element that is a non-empty string, a non-zero number or \<open>true\<close> cannot become
      a sub-document: the path is marked invalid, and \<^verbatim>\<open>save()\<close> then rejects, so the
      \<^verbatim>\<open>catch\<close> block answers 500 and nothing is written.

  The model covers a \<open>date\<close> that is a string and sub-document properties that are
  strings or absent, in bodies and sub-documents that do not set the paths Mongoose adds
  itself (\<open>_id\<close>, and \<open>__v\<close> of the document); \<open>Unmodelled\<close> stands for every other
  body.
\<close>

datatype 'a castResult = Unmodelled | Refused | Cast 'a

fun fieldString :: "js \<Rightarrow> string option option" where
  "fieldString Undefined = Some None"
| "fieldString (JStr s) = Some (Some s)"
| "fieldString _ = None"

fun castRecord :: "js \<Rightarrow> attendanceRecord castResult" where
  "castRecord (JObj kvs) =
     (if getProp (JObj kvs) ''_id'' = Undefined
      then case (fieldString (getProp (JObj kvs) ''name''),
                 fieldString (getProp (JObj kvs) ''status''),
                 fieldString (getProp (JObj kvs) ''timestamp'')) of
             (Some n, Some s, Some t) \<Rightarrow> Cast \<lparr>name = n, status = s, timestamp = t\<rparr>
           | _ \<Rightarrow> Unmodelled
      else Unmodelled)"
| "castRecord (JStr s) = (if truthy (JStr s) then Refused else Unmodelled)"
| "castRecord (JNum n) = (if truthy (JNum n) then Refused else Unmodelled)"
| "castRecord (JBool b) = (if truthy (JBool b) then Refused else Unmodelled)"
| "castRecord _ = Unmodelled"

fun castEach :: "js list \<Rightarrow> attendanceRecord list castResult" where
  "castEach [] = Cast []"
| "castEach (v # vs) =
     (case (castRecord v, castEach vs) of
        (Unmodelled, _) \<Rightarrow> Unmodelled
      | (_, Unmodelled) \<Rightarrow> Unmodelled
      | (Refused, _) \<Rightarrow> Refused
      | (_, Refused) \<Rightarrow> Refused
      | (Cast r, Cast rs) \<Rightarrow> Cast (r # rs))"

definition castRecords :: "js \<Rightarrow> attendanceRecord list castResult" where
  "castRecords v = (if isArray v then (case v of JArr vs \<Rightarrow> castEach vs | _ \<Rightarrow> Unmodelled)
                    else castEach [v])"

definition castBody :: "js \<Rightarrow> sheet castResult" where
  "castBody attendanceData =
     (if getProp attendanceData ''_id'' = Undefined \<and> getProp attendanceData ''__v'' = Undefined
      then case getProp attendanceData ''date'' of
             JStr d \<Rightarrow>
               (case castRecords (getProp attendanceData ''records'') of
                  Cast rs \<Rightarrow> Cast \<lparr>date = d, records = rs\<rparr>
                | Refused \<Rightarrow> Refused
                | Unmodelled \<Rightarrow> Unmodelled)
           | _ \<Rightarrow> Unmodelled
      else Unmodelled)"

text \<open>
  \<^verbatim>\<open>POST /api/attendance\<close> of \<^verbatim>\<open>main.js\<close>; \<open>None\<close> for a body outside the model.
\<close>

definition postAttendance_main ::
  "js \<Rightarrow> attendanceStore \<Rightarrow> ((failure + js) \<times> attendanceStore) option"
where
  "postAttendance_main attendanceData st =
     (if \<not> saveGuard attendanceData then Some (Inl BadRequest, st)
      else case castBody attendanceData of
             Unmodelled \<Rightarrow> None
           | Refused \<Rightarrow> Some (Inl InternalError, st)
           | Cast doc \<Rightarrow> Some (Inr (getProp attendanceData ''date''), storeSheet doc st))"

definition getSheet :: "string \<Rightarrow> attendanceStore \<Rightarrow> failure + sheet" where
  "getSheet d st = (case findOne d st of Some attendance \<Rightarrow> Inr attendance | None \<Rightarrow> Inl NotFound)"

text \<open>\<^verbatim>\<open>dates.sort().reverse()\<close>\<close>

definition getDates :: "attendanceStore \<Rightarrow> string list" where
  "getDates st = rev (sort (map date st))"

subsection \<open>Hardened variant\<close>

definition falsy :: "string option \<Rightarrow> bool" where
  "falsy v = (case v of None \<Rightarrow> True | Some s \<Rightarrow> s = [])"

definition invalidRecords :: "attendanceRecord list \<Rightarrow> attendanceRecord list" where
  "invalidRecords rs = filter (\<lambda>record. falsy (name record) \<or> falsy (status record)) rs"

text \<open>
  The \<^verbatim>\<open>map\<close> callback of lines 601 to 605 for one record. The callback reads the
  clock itself (\<^verbatim>\<open>record.timestamp || new Date().toISOString()\<close>), so every record
  has its own reading: \<open>now\<close> is the string the clock gives while this record is mapped.
  \<^verbatim>\<open>.trim()\<close> on a missing name or status throws.
\<close>

definition normaliseRecord :: "string \<Rightarrow> attendanceRecord \<Rightarrow> attendanceRecord option" where
  "normaliseRecord now record =
     (case (name record, status record) of
        (Some n, Some s) \<Rightarrow>
          Some \<lparr>name = Some (trim n), status = Some (trim s),
                timestamp = (if falsy (timestamp record) then Some now else timestamp record)\<rparr>
      | _ \<Rightarrow> None)"

text \<open>
  \<^verbatim>\<open>records.map(...)\<close>: \<open>clock i\<close> is the reading of the clock while the record at
  index \<open>i\<close> is mapped.
\<close>

definition normaliseAll ::
  "(nat \<Rightarrow> string) \<Rightarrow> attendanceRecord list \<Rightarrow> attendanceRecord list option"
where
  "normaliseAll clock rs =
     those (map (\<lambda>(i, record). normaliseRecord (clock i) record) (enumerate 0 rs))"

definition upsertSheet_hardened ::
  "(nat \<Rightarrow> string) \<Rightarrow> sheet \<Rightarrow> attendanceStore \<Rightarrow> (failure + nat) \<times> attendanceStore"
where
  "upsertSheet_hardened clock body st =
     (if date body = [] then (Inl BadRequest, st)
      else if length (invalidRecords (records body)) > 0 then (Inl BadRequest, st)
      else case normaliseAll clock (records body) of
             None \<Rightarrow> (Inl InternalError, st)
           | Some rs \<Rightarrow>
               (Inr (length rs), storeSheet \<lparr>date = trim (date body), records = rs\<rparr> st))"

subsection \<open>File variant\<close>

text \<open>
  The file of a date. \<^verbatim>\<open>path.join\<close> resolves the name inside the data directory; the
  model covers a date that is a string without a path separator, where the name is the
  prefix, the date and the extension, and is \<open>None\<close> otherwise.
\<close>

definition fileNameOf :: "js \<Rightarrow> string option" where
  "fileNameOf d =
     (case d of
        JStr s \<Rightarrow> if CHR ''/'' \<in> set s then None else Some (''attendance-'' @ s @ ''.json'')
      | _ \<Rightarrow> None)"

definition writeFile :: "string \<Rightarrow> js \<Rightarrow> dataDir \<Rightarrow> dataDir" where
  "writeFile file content dir =
     (if file \<in> set (map fst dir)
      then map (\<lambda>(f, c). if f = file then (f, content) else (f, c)) dir
      else dir @ [(file, content)])"

text \<open>
  \<^verbatim>\<open>POST /api/attendance\<close> of the file variant: the body is written as it is
  (\<^verbatim>\<open>JSON.stringify\<close>, read back by \<^verbatim>\<open>JSON.parse\<close>). \<open>None\<close>: the file name is
  outside the model.
\<close>

definition postAttendance_file :: "js \<Rightarrow> dataDir \<Rightarrow> ((failure + js) \<times> dataDir) option" where
  "postAttendance_file attendanceData dir =
     (if \<not> saveGuard attendanceData then Some (Inl BadRequest, dir)
      else case fileNameOf (getProp attendanceData ''date'') of
             None \<Rightarrow> None
           | Some filePath \<Rightarrow>
               Some (Inr (getProp attendanceData ''date''), writeFile filePath attendanceData dir))"

definition getSheet_file :: "string \<Rightarrow> dataDir \<Rightarrow> (failure + js) option" where
  "getSheet_file d dir =
     (case fileNameOf (JStr d) of
        None \<Rightarrow> None
      | Some filePath \<Rightarrow>
          Some (case map_of dir filePath of Some content \<Rightarrow> Inr content | None \<Rightarrow> Inl NotFound))"

text \<open>
  \<^verbatim>\<open>file.replace('attendance-', '').replace('.json', '')\<close>: \<^verbatim>\<open>replace\<close> with a
  string pattern removes its first occurrence.
\<close>

fun removeFirst :: "string \<Rightarrow> string \<Rightarrow> string" where
  "removeFirst q [] = []"
| "removeFirst q (c # s) =
     (if prefix q (c # s) then drop (length q) (c # s) else c # removeFirst q s)"

definition getDates_file :: "dataDir \<Rightarrow> string list" where
  "getDates_file dir =
     rev (sort (map (\<lambda>file. removeFirst ''.json'' (removeFirst ''attendance-'' file))
                 (map fst (attendanceFiles dir))))"

section \<open>Roster: batch delete (hardened variant)\<close>

record student =
  objectId :: string
  studentName :: string
  studentId :: string
  studentClass :: string

type_synonym roster = "student list"

text \<open>
  The filter \<^verbatim>\<open>{ $or: [{ _id: id }, { studentId: id }] }\<close>. Before a query is sent,
  Mongoose casts the filter to the schema: the value given for \<open>_id\<close> becomes an
  ObjectId, the one for \<open>studentId\<close> a string. An ObjectId is written here as its 24
  lower-case hexadecimal digits. A string of 24 hexadecimal digits is cast to the
  ObjectId it spells. A string of 12 characters is read as the 12 bytes of an ObjectId by
  the driver versions that still accept this form and is refused by the later ones; the
  repository does not fix the version, so this is the parameter \<open>legacy12\<close>. Every other
  string is refused with a \<^verbatim>\<open>CastError\<close>, which rejects the query before anything is
  deleted. Whether the \<^verbatim>\<open>trim\<close> setter of the \<open>studentId\<close> path is applied to the
  filter also depends on the version; the model covers identifiers that trimming leaves
  unchanged.
\<close>

definition isHexDigit :: "char \<Rightarrow> bool" where
  "isHexDigit c =
     ((CHR ''0'' \<le> c \<and> c \<le> CHR ''9'') \<or> (CHR ''a'' \<le> c \<and> c \<le> CHR ''f'')
      \<or> (CHR ''A'' \<le> c \<and> c \<le> CHR ''F''))"

fun isAscii :: "char \<Rightarrow> bool" where
  "isAscii (Char b0 b1 b2 b3 b4 b5 b6 b7) = (\<not> b7)"

definition hexDigits :: string where
  "hexDigits = ''0123456789abcdef''"

fun hexOfChar :: "char \<Rightarrow> string" where
  "hexOfChar (Char b0 b1 b2 b3 b4 b5 b6 b7) =
     [hexDigits ! (of_bool b4 + 2 * of_bool b5 + 4 * of_bool b6 + 8 * of_bool b7),
      hexDigits ! (of_bool b0 + 2 * of_bool b1 + 4 * of_bool b2 + 8 * of_bool b3)]"

definition castObjectId :: "bool \<Rightarrow> string \<Rightarrow> string option" where
  "castObjectId legacy12 s =
     (if length s = 24 \<and> list_all isHexDigit s then Some (toLowerCase s)
      else if legacy12 \<and> length s = 12 \<and> list_all isAscii s then Some (concat (map hexOfChar s))
      else None)"

definition idMatches :: "string \<Rightarrow> string \<Rightarrow> student \<Rightarrow> bool" where
  "idMatches oid i s = (objectId s = oid \<or> studentId s = i)"

text \<open>\<^verbatim>\<open>findOneAndDelete\<close>: removes the first matching document and returns it, or \<open>null\<close>.\<close>

fun findOneAndDelete :: "(student \<Rightarrow> bool) \<Rightarrow> roster \<Rightarrow> student option \<times> roster" where
  "findOneAndDelete P [] = (None, [])"
| "findOneAndDelete P (s # ss) =
     (if P s then (Some s, ss)
      else let (found, rest) = findOneAndDelete P ss in (found, s # rest))"

text \<open>
  One query per identifier: it is rejected when the identifier cannot be cast, and
  otherwise resolves to the deleted document or \<open>null\<close>.
\<close>

datatype settled = Rejected | Resolved "student option"

definition deleteOne :: "bool \<Rightarrow> string \<Rightarrow> roster \<Rightarrow> settled \<times> roster" where
  "deleteOne legacy12 i ro =
     (case castObjectId legacy12 i of
        None \<Rightarrow> (Rejected, ro)
      | Some oid \<Rightarrow>
          let (found, ro') = findOneAndDelete (idMatches oid i) ro in (Resolved found, ro'))"

text \<open>
  The handler creates all the queries, and \<^verbatim>\<open>Promise.all\<close> starts every one of them;
  the model runs them one after the other in the order of the request.
\<close>

fun deleteEach :: "bool \<Rightarrow> string list \<Rightarrow> roster \<Rightarrow> settled list \<times> roster" where
  "deleteEach legacy12 [] ro = ([], ro)"
| "deleteEach legacy12 (i # ids) ro =
     (let (result, ro') = deleteOne legacy12 i ro;
          (results, ro'') = deleteEach legacy12 ids ro'
      in (result # results, ro''))"

fun plainId :: "js \<Rightarrow> string option" where
  "plainId (JStr s) = (if trim s = s then Some s else None)"
| "plainId _ = None"

fun deletedOf :: "settled list \<Rightarrow> student list" where
  "deletedOf [] = []"
| "deletedOf (Resolved (Some s) # rs) = s # deletedOf rs"
| "deletedOf (_ # rs) = deletedOf rs"

record batchResult =
  deletedCount :: nat
  notFoundCount :: nat
  deletedStudents :: "(string \<times> string \<times> string) list"

text \<open>
  \<^verbatim>\<open>DELETE /api/students/batch/delete\<close>. When a query is rejected, \<^verbatim>\<open>Promise.all\<close>
  rejects and the \<^verbatim>\<open>catch\<close> block answers 500; the queries that could be cast have
  run all the same. The model covers identifiers that are strings without leading or
  trailing white space; the result is \<open>None\<close> for a list with any other JSON value.
\<close>

definition deleteBatch ::
  "bool \<Rightarrow> js \<Rightarrow> roster \<Rightarrow> ((failure + batchResult) \<times> roster) option"
where
  "deleteBatch legacy12 studentIds ro =
     (if \<not> truthy studentIds \<or> \<not> isArray studentIds then Some (Inl BadRequest, ro)
      else case studentIds of
             JArr ids \<Rightarrow>
               if length ids = 0 then Some (Inl BadRequest, ro)
               else (case those (map plainId ids) of
                       None \<Rightarrow> None
                     | Some strs \<Rightarrow>
                         let (results, ro') = deleteEach legacy12 strs ro
                         in if Rejected \<in> set results then Some (Inl InternalError, ro')
                            else let deletedStudents = deletedOf results
                                 in if length deletedStudents = 0 then Some (Inl NotFound, ro')
                                    else Some (Inr \<lparr>deletedCount = length deletedStudents,
                                                    notFoundCount = length ids - length deletedStudents,
                                                    deletedStudents =
                                                      map (\<lambda>s. (studentName s, studentId s, studentClass s))
                                                          deletedStudents\<rparr>,
                                               ro'))
           | _ \<Rightarrow> Some (Inl BadRequest, ro))"

section \<open>Notions used in the results\<close>

text \<open>
  \<open>chronoGe a b\<close>: both dates have a time value and \<open>a\<close> is not earlier than \<open>b\<close>.
  \<open>validDates\<close>: every sheet of the store has a date of the covered form.
  \<open>sheetFiles dir st\<close>: the attendance files of the directory hold the sheets \<open>st\<close>.
\<close>

definition chronoGe :: "string \<Rightarrow> string \<Rightarrow> bool" where
  "chronoGe a b = (case (dateValue a, dateValue b) of (Some ta, Some tb) \<Rightarrow> tb \<le> ta | _ \<Rightarrow> False)"

definition chronoGeJs :: "js \<Rightarrow> js \<Rightarrow> bool" where
  "chronoGeJs a b = (case (dateValueJs a, dateValueJs b) of (Some ta, Some tb) \<Rightarrow> tb \<le> ta | _ \<Rightarrow> False)"

definition validDates :: "attendanceStore \<Rightarrow> bool" where
  "validDates st = list_all (\<lambda>a. dateValue (date a) \<noteq> None) st"

definition sheetFiles :: "dataDir \<Rightarrow> attendanceStore \<Rightarrow> bool" where
  "sheetFiles dir st = (map snd (attendanceFiles dir) = map sheetJson st)"

text \<open>Every record of every sheet has a name.\<close>

definition allNamed :: "attendanceStore \<Rightarrow> bool" where
  "allNamed st = list_all (\<lambda>a. list_all (\<lambda>r. name r \<noteq> None) (records a)) st"

text \<open>A field of a record as the JSON value stored for it, and the count of \<open>Absent\<close>.\<close>

definition optJs :: "string option \<Rightarrow> js" where
  "optJs v = (case v of None \<Rightarrow> Undefined | Some s \<Rightarrow> JStr s)"

definition absentCount :: "attendanceRecord list \<Rightarrow> nat" where
  "absentCount rs = length (filter (\<lambda>r. status r = Some ''Absent'') rs)"

text \<open>
  What the hardened variant stores for valid records, and sequences of save requests:
  upserts one after the other, each hardened call with the clock of that request. A
  clock that ticks between the first record and the second.
\<close>

definition normalised :: "(nat \<Rightarrow> string) \<Rightarrow> attendanceRecord list \<Rightarrow> attendanceRecord list" where
  "normalised clock rs =
     map (\<lambda>(i, r). \<lparr>name = map_option trim (name r), status = map_option trim (status r),
                    timestamp = (if falsy (timestamp r) then Some (clock i) else timestamp r)\<rparr>)
         (enumerate 0 rs)"

definition tickingClock :: "nat \<Rightarrow> string" where
  "tickingClock i = (if i = 0 then ''2024-01-10T09:00:00.000Z'' else ''2024-01-10T09:00:00.001Z'')"

definition upserts_main :: "sheet list \<Rightarrow> attendanceStore \<Rightarrow> attendanceStore" where
  "upserts_main bodies st = foldl (\<lambda>s body. snd (upsertSheet_main body s)) st bodies"

definition upserts_hardened ::
  "((nat \<Rightarrow> string) \<times> sheet) list \<Rightarrow> attendanceStore \<Rightarrow> attendanceStore"
where
  "upserts_hardened calls st =
     foldl (\<lambda>s (clock, body). snd (upsertSheet_hardened clock body s)) st calls"

fun posts_file :: "js list \<Rightarrow> dataDir \<Rightarrow> dataDir option" where
  "posts_file [] dir = Some dir"
| "posts_file (body # bodies) dir =
     (case postAttendance_file body dir of
        None \<Rightarrow> None
      | Some (response, dir') \<Rightarrow> posts_file bodies dir')"

text \<open>
  \<open>fileDates dir ds\<close>: the attendance files of the directory are those of the dates
  \<open>ds\<close>, none of which contains a dot.
\<close>

definition fileDates :: "dataDir \<Rightarrow> string list \<Rightarrow> bool" where
  "fileDates dir ds =
     (map fst (attendanceFiles dir) = map (\<lambda>d. ''attendance-'' @ d @ ''.json'') ds
      \<and> list_all (\<lambda>d. CHR ''.'' \<notin> set d) ds)"

text \<open>The specification's roster of two students.\<close>

definition exampleRoster :: roster where
  "exampleRoster =
     [\<lparr>objectId = ''65a000000000000000000001'', studentName = ''Ana'', studentId = ''S1'',
        studentClass = ''A''\<rparr>,
      \<lparr>objectId = ''65a000000000000000000002'', studentName = ''Bob'', studentId = ''S2'',
        studentClass = ''A''\<rparr>]"

section \<open>Evaluation rules\<close>

lemmas double_eval =
  ratePercent_def toNumber_def nearestDouble_def binExponent_def roundHalfEvenDiv_def
  Let_def bitlen.simps

lemmas date_eval =
  dateValue_def validYmd_def timeOfYmd_def isDigit_def digitVal_def daysInMonth_def isLeap_def
  dayFromYear_def dayWithinYear_def msPerDay_def upt_rec less_eq_char_def less_char_def

lemmas file_eval =
  attendanceFiles_def isAttendanceFile_def sheetFile_def sheetJson_def recordJson_def optJson_def
  fileSummary_def countStatus_def getProp_def jsSort_def dateDiffJs_def dateValueJs_def
  compareResult_def mkRecord_def List.map_filter_def suffix_to_prefix

lemmas string_eval = toLowerCase_def isUpper_def less_eq_char_def

section \<open>JavaScript numbers: results\<close>

text \<open>
  A rate computed from \<open>p\<close> present among \<open>t > 0\<close> records is a whole number between 0 and
  100, also after the two roundings of the division and of the multiplication.
\<close>

lemma bitlen_0: "bitlen 0 = 0"
  by (simp add: bitlen.simps)

lemma bitlen_pos: "0 < n \<Longrightarrow> bitlen n = Suc (bitlen (n div 2))"
  by (subst bitlen.simps) simp

lemma bitlen_bounds: "0 < n \<Longrightarrow> 2 ^ (bitlen n - 1) \<le> n \<and> n < 2 ^ bitlen n"
proof (induction n rule: bitlen.induct)
  case (1 n)
  show ?case
  proof (cases "n div 2 = 0")
    case True
    with "1.prems" have "n = 1" by presburger
    then show ?thesis by (simp add: bitlen_pos bitlen_0)
  next
    case False
    then have p: "0 < n div 2" using "1.prems" by simp
    have ih: "2 ^ (bitlen (n div 2) - 1) \<le> n div 2 \<and> n div 2 < 2 ^ bitlen (n div 2)"
      using "1.IH" "1.prems" p by simp
    have b: "0 < bitlen (n div 2)" using p by (simp add: bitlen_pos)
    then obtain k where k: "bitlen (n div 2) = Suc k" by (cases "bitlen (n div 2)") simp_all
    have "2 * 2 ^ k \<le> n" using ih k by simp presburger
    moreover have "n < 2 * 2 ^ Suc k" using ih k by simp presburger
    ultimately show ?thesis
      using "1.prems" k by (simp add: bitlen_pos)
  qed
qed

lemma bitlen_le: "0 < n \<Longrightarrow> n < 2 ^ j \<Longrightarrow> bitlen n \<le> j"
proof (rule ccontr)
  assume n: "0 < n" "n < 2 ^ j" and "\<not> bitlen n \<le> j"
  then have "j \<le> bitlen n - 1" by simp
  then have "(2::int) ^ j \<le> 2 ^ (bitlen n - 1)" by (intro power_increasing) simp_all
  also have "\<dots> \<le> n" using bitlen_bounds [OF n(1)] by simp
  finally show False using n(2) by simp
qed

lemma bitlen_ge: "0 < n \<Longrightarrow> 2 ^ j \<le> n \<Longrightarrow> j < bitlen n"
proof (rule ccontr)
  assume n: "0 < n" "2 ^ j \<le> n" and "\<not> j < bitlen n"
  then have "bitlen n \<le> j" by simp
  have "n < 2 ^ bitlen n" using bitlen_bounds [OF n(1)] by simp
  also have "(2::int) ^ bitlen n \<le> 2 ^ j"
    using \<open>bitlen n \<le> j\<close> by (intro power_increasing) simp_all
  finally show False using n(2) by simp
qed

text \<open>The exponent of a fraction below \<open>2 ^ k\<close> is below \<open>k\<close>.\<close>

lemma binExponent_less:
  assumes "0 < a" "0 < b" "a < b * 2 ^ k"
  shows "binExponent a b < int k"
proof -
  have la: "a < 2 ^ bitlen a" using bitlen_bounds [OF assms(1)] by simp
  have lb: "2 ^ (bitlen b - 1) \<le> b" using bitlen_bounds [OF assms(2)] by simp
  have bpos: "0 < bitlen b" using assms(2) by (simp add: bitlen_pos)
  have "(2::int) ^ (bitlen a - 1) \<le> a" using bitlen_bounds [OF assms(1)] by simp
  also have "\<dots> < b * 2 ^ k" by (rule assms(3))
  also have "\<dots> < 2 ^ bitlen b * 2 ^ k"
    using bitlen_bounds [OF assms(2)] by simp
  finally have "(2::int) ^ (bitlen a - 1) < 2 ^ (bitlen b + k)"
    by (simp add: power_add)
  then have "bitlen a - 1 < bitlen b + k"
    by (simp add: power_strict_increasing_iff)
  then have d: "int (bitlen a) \<le> int (bitlen b) + int k" by simp
  define d where "d = int (bitlen b) - int (bitlen a)"
  have dk: "- d \<le> int k" using d by (simp add: d_def)
  show ?thesis
  proof (cases "- d = int k")
    case False
    then show ?thesis
      using dk by (simp add: binExponent_def Let_def d_def)
  next
    case True
    then have "d \<le> 0" by simp
    have "\<not> b * 2 ^ nat (- d) \<le> a" using assms(3) True by simp
    moreover have "d = 0 \<Longrightarrow> \<not> b \<le> a * 2 ^ nat d" using assms(3) True by simp
    ultimately have "binExponent a b = - d - 1"
      using \<open>d \<le> 0\<close> by (auto simp add: binExponent_def Let_def d_def [symmetric])
    then show ?thesis using True by simp
  qed
qed

lemma roundHalfEvenDiv_le:
  assumes "0 < den" "num \<le> N * den"
  shows "roundHalfEvenDiv num den \<le> N"
proof -
  have n: "num div den \<le> N"
    using assms by (metis zdiv_mono1 nonzero_mult_div_cancel_right less_irrefl)
  show ?thesis
  proof (cases "num div den = N")
    case True
    have "num = den * (num div den) + num mod den" by simp
    then have "num mod den \<le> 0" using assms(2) True by (simp add: algebra_simps)
    then show ?thesis using True assms(1) by (simp add: roundHalfEvenDiv_def Let_def)
  next
    case False
    then have "num div den + 1 \<le> N" using n by simp
    then show ?thesis using n by (simp add: roundHalfEvenDiv_def Let_def)
  qed
qed

lemma roundHalfEvenDiv_nonneg: "0 \<le> num \<Longrightarrow> 0 < den \<Longrightarrow> 0 \<le> roundHalfEvenDiv num den"
  by (simp add: roundHalfEvenDiv_def Let_def pos_imp_zdiv_nonneg_iff)

lemma nearestDouble_pos:
  assumes "0 < a" "0 < b" "a \<le> K * b" "a < b * 2 ^ k"
  shows "\<exists>m s. nearestDouble a b = Dbl m (- s) \<and> 52 - int k < s \<and> 0 \<le> m
           \<and> (0 \<le> s \<longrightarrow> m \<le> K * 2 ^ nat s)"
proof -
  define s where "s = 52 - binExponent a b"
  define m where "m = (if 0 \<le> s then roundHalfEvenDiv (a * 2 ^ nat s) b
                       else roundHalfEvenDiv a (b * 2 ^ nat (- s)))"
  have n: "nearestDouble a b = Dbl m (- s)"
    using assms(1) by (simp add: nearestDouble_def Let_def s_def m_def)
  have s: "52 - int k < s"
    using binExponent_less [OF assms(1,2,4)] by (simp add: s_def)
  have m0: "0 \<le> m"
    using assms(1,2) by (simp add: m_def roundHalfEvenDiv_nonneg)
  have mK: "m \<le> K * 2 ^ nat s" if "0 \<le> s"
  proof -
    have "a * 2 ^ nat s \<le> (K * b) * 2 ^ nat s"
      using assms(3) by (intro mult_right_mono) simp_all
    then have "a * 2 ^ nat s \<le> (K * 2 ^ nat s) * b"
      by (simp add: algebra_simps)
    then have "roundHalfEvenDiv (a * 2 ^ nat s) b \<le> K * 2 ^ nat s"
      using assms(2) by (intro roundHalfEvenDiv_le)
    then show ?thesis using that by (simp add: m_def)
  qed
  show ?thesis
    using n s m0 mK by blast
qed

lemma math_round_le:
  assumes "0 \<le> m" "m \<le> 100 * 2 ^ nat s" "0 < s"
  shows "\<exists>n. math_round (Dbl m (- s)) = Dbl n 0 \<and> 0 \<le> n \<and> n \<le> 100"
proof -
  define k where "k = nat s"
  define y :: int where "y = 2 ^ (k + 1)"
  define x where "x = 2 * m + 2 ^ k"
  have ypos: "0 < y" by (simp add: y_def)
  have r: "math_round (Dbl m (- s)) = Dbl (x div y) 0"
    using assms(3) by (simp add: k_def x_def y_def)
  have "x \<le> 201 * 2 ^ k" using assms(2) by (simp add: x_def k_def)
  moreover have "0 < (2::int) ^ k" by simp
  ultimately have "x < 202 * 2 ^ k" by linarith
  then have xy: "x < 101 * y" by (simp add: y_def)
  have "x = y * (x div y) + x mod y" by simp
  moreover have "0 \<le> x mod y" using ypos by simp
  ultimately have "y * (x div y) \<le> x" by linarith
  then have "x div y * y < 101 * y" using xy by (simp add: mult.commute)
  then have "x div y < 101" using ypos by (simp add: mult_less_cancel_right_pos)
  moreover have "0 \<le> x div y"
    using assms(1) ypos by (simp add: x_def pos_imp_zdiv_nonneg_iff)
  ultimately show ?thesis using r by simp
qed

lemma ratePercent_bounds:
  assumes "0 < t" "p \<le> t"
  shows "\<exists>n. ratePercent p t = Dbl n 0 \<and> 0 \<le> n \<and> n \<le> 100"
proof (cases "p = 0")
  case True
  then show ?thesis
    using assms(1) by (simp add: ratePercent_def toNumber_def nearestDouble_def)
next
  case False
  have "int p \<le> 1 * int t" "int p < int t * 2 ^ 1" "0 < int p" "0 < int t"
    using assms False by simp_all
  then obtain m s where d: "nearestDouble (int p) (int t) = Dbl m (- s)"
    and s: "52 - int 1 < s" and m0: "0 \<le> m" and m1: "0 \<le> s \<longrightarrow> m \<le> 1 * 2 ^ nat s"
    using nearestDouble_pos [of "int p" "int t" 1 1] by blast
  have m2: "m \<le> 2 ^ nat s" using m1 s by simp
  have q: "js_div (toNumber p) (toNumber t) = Dbl m (- s)"
    using assms(1) d by (simp add: toNumber_def)
  have pr: "js_mul (Dbl m (- s)) (toNumber 100) = nearestDouble (m * 100) (2 ^ nat s)"
    using s by (simp add: toNumber_def)
  show ?thesis
  proof (cases "m = 0")
    case True
    then show ?thesis
      using q pr by (simp add: ratePercent_def nearestDouble_def)
  next
    case False
    then have a: "0 < m * 100" using m0 by simp
    have b: "0 < (2::int) ^ nat s" by simp
    have c: "m * 100 \<le> 100 * 2 ^ nat s" using m2 by simp
    have "m * 100 < 128 * 2 ^ nat s" using m2 b by linarith
    then have e: "m * 100 < 2 ^ nat s * 2 ^ 7" by simp
    obtain m' s' where d': "nearestDouble (m * 100) (2 ^ nat s) = Dbl m' (- s')"
      and s': "52 - int 7 < s'" and m0': "0 \<le> m'"
      and m1': "0 \<le> s' \<longrightarrow> m' \<le> 100 * 2 ^ nat s'"
      using nearestDouble_pos [OF a b c e] by blast
    have "\<exists>n. math_round (Dbl m' (- s')) = Dbl n 0 \<and> 0 \<le> n \<and> n \<le> 100"
      using m0' m1' s' by (intro math_round_le) simp_all
    then show ?thesis
      using q pr d' by (simp add: ratePercent_def)
  qed
qed

lemma roundHalfEvenDiv_near:
  assumes "0 < den"
  shows "\<bar>2 * (roundHalfEvenDiv num den * den - num)\<bar> \<le> den"
proof -
  define n where "n = num div den"
  define r where "r = num mod den"
  have num: "num = n * den + r" by (simp add: n_def r_def)
  have r: "0 \<le> r" "r < den" using assms by (simp_all add: r_def)
  have "roundHalfEvenDiv num den = n \<and> 2 * r \<le> den
        \<or> roundHalfEvenDiv num den = n + 1 \<and> den \<le> 2 * r"
    by (auto simp add: roundHalfEvenDiv_def Let_def n_def [symmetric] r_def [symmetric])
  then show ?thesis
    using r by (auto simp add: num algebra_simps)
qed

lemma roundHalfEvenDiv_near_real:
  assumes "0 < den"
  shows "\<bar>real_of_int (roundHalfEvenDiv num den) - real_of_int num / real_of_int den\<bar> \<le> 1 / 2"
proof -
  define q where "q = roundHalfEvenDiv num den"
  define D where "D = real_of_int den"
  define X where "X = \<bar>real_of_int q * D - real_of_int num\<bar>"
  have d: "0 < D" using assms by (simp add: D_def)
  have "\<bar>2 * (q * den - num)\<bar> \<le> den"
    unfolding q_def by (rule roundHalfEvenDiv_near [OF assms])
  then have "2 * \<bar>q * den - num\<bar> \<le> den"
    by linarith
  then have "real_of_int (2 * \<bar>q * den - num\<bar>) \<le> real_of_int den"
    by (simp only: of_int_le_iff)
  then have "2 * X \<le> D"
    by (simp add: X_def D_def)
  then have "X \<le> D / 2" by simp
  then have "X / D \<le> (D / 2) / D"
    using d by (intro divide_right_mono) simp_all
  also have "(D / 2) / D = 1 / 2" using d by simp
  finally have x: "X / D \<le> 1 / 2" .
  have "real_of_int q - real_of_int num / D = (real_of_int q * D - real_of_int num) / D"
    using d by (simp add: diff_divide_distrib)
  then have "\<bar>real_of_int q - real_of_int num / D\<bar> = \<bar>(real_of_int q * D - real_of_int num) / D\<bar>"
    by simp
  also have "\<dots> = X / D"
    using d by (simp add: X_def abs_divide del: of_int_mult)
  finally show ?thesis
    using x by (simp add: q_def D_def)
qed

text \<open>The double nearest to a fraction lies within half a unit in the last place.\<close>

lemma nearestDouble_near:
  assumes "0 < a" "0 < b" "a < b * 2 ^ k" "k \<le> 52"
  shows "\<exists>m s. nearestDouble a b = Dbl m (- int s) \<and> 52 < s + k \<and> 0 \<le> m
           \<and> \<bar>real_of_int m / 2 ^ s - real_of_int a / real_of_int b\<bar> \<le> 1 / (2 * 2 ^ s)"
proof -
  define s' where "s' = 52 - binExponent a b"
  have s'k: "52 - int k < s'"
    using binExponent_less [OF assms(1,2,3)] by (simp add: s'_def)
  then have s'0: "0 \<le> s'" using assms(4) by simp
  define s where "s = nat s'"
  have ss: "s' = int s" using s'0 by (simp add: s_def)
  define m where "m = roundHalfEvenDiv (a * 2 ^ s) b"
  have n: "nearestDouble a b = Dbl m (- int s)"
    using assms(1) s'0 by (simp add: nearestDouble_def Let_def s'_def [symmetric] m_def s_def)
  have sk: "52 < s + k" using s'k ss by simp
  have m0: "0 \<le> m"
    using assms(1,2) by (simp add: m_def roundHalfEvenDiv_nonneg)
  have "\<bar>real_of_int m - real_of_int (a * 2 ^ s) / real_of_int b\<bar> \<le> 1 / 2"
    unfolding m_def by (rule roundHalfEvenDiv_near_real [OF assms(2)])
  then have "\<bar>real_of_int m - real_of_int (a * 2 ^ s) / real_of_int b\<bar> / 2 ^ s \<le> (1 / 2) / 2 ^ s"
    by (intro divide_right_mono) simp_all
  moreover have "\<bar>real_of_int m - real_of_int (a * 2 ^ s) / real_of_int b\<bar> / 2 ^ s
      = \<bar>real_of_int m / 2 ^ s - real_of_int a / real_of_int b\<bar>"
  proof -
    have "\<bar>real_of_int m - real_of_int (a * 2 ^ s) / real_of_int b\<bar> / 2 ^ s
        = \<bar>(real_of_int m - real_of_int (a * 2 ^ s) / real_of_int b) / 2 ^ s\<bar>"
      by simp
    also have "(real_of_int m - real_of_int (a * 2 ^ s) / real_of_int b) / 2 ^ s
        = real_of_int m / 2 ^ s - real_of_int a / real_of_int b"
      by (simp add: field_simps)
    finally show ?thesis .
  qed
  ultimately have "\<bar>real_of_int m / 2 ^ s - real_of_int a / real_of_int b\<bar> \<le> 1 / (2 * 2 ^ s)"
    by simp
  then show ?thesis using n sk m0 by blast
qed

lemma floor_near:
  fixes y :: real
  assumes "0 < B" "\<bar>y - real_of_int A / real_of_int B\<bar> < d" "d \<le> 1 / real_of_int B"
  shows "\<lfloor>y\<rfloor> = A div B \<or> (\<lfloor>y\<rfloor> = A div B - 1 \<and> B dvd A)"
proof -
  define n where "n = A div B"
  define r where "r = A mod B"
  define u where "u = 1 / real_of_int B"
  define f where "f = real_of_int r / real_of_int B"
  have A: "A = n * B + r" by (simp add: n_def r_def)
  have r: "0 \<le> r" "r < B" using assms(1) by (simp_all add: r_def)
  have Bp: "0 < real_of_int B" using assms(1) by simp
  have "real_of_int A / real_of_int B = (real_of_int n * real_of_int B) / real_of_int B + f"
    by (simp add: A f_def add_divide_distrib)
  then have x: "real_of_int A / real_of_int B = real_of_int n + f"
    using Bp by simp
  have y: "\<bar>y - (real_of_int n + f)\<bar> < u"
    using assms(2,3) x by (simp add: u_def)
  have u1: "u \<le> 1"
    using assms(1) by (simp add: u_def)
  show ?thesis
  proof (cases "r = 0")
    case True
    then have "B dvd A" by (simp add: r_def dvd_eq_mod_eq_0)
    have "f = 0" using True by (simp add: f_def)
    then have "real_of_int n - 1 < y" "y < real_of_int n + 1"
      using y u1 by linarith+
    then have "n - 1 \<le> \<lfloor>y\<rfloor>" "\<lfloor>y\<rfloor> < n + 1"
      by linarith+
    then show ?thesis using \<open>B dvd A\<close> by (auto simp add: n_def)
  next
    case False
    then have "1 \<le> r" "r \<le> B - 1" using r by simp_all
    then have "1 \<le> real_of_int r" "real_of_int r \<le> real_of_int B - 1"
      by linarith+
    then have "1 / real_of_int B \<le> f" "f \<le> (real_of_int B - 1) / real_of_int B"
      unfolding f_def using Bp by (simp_all only: divide_right_mono less_imp_le)
    moreover have "(real_of_int B - 1) / real_of_int B = 1 - u"
      using Bp by (simp add: diff_divide_distrib u_def)
    ultimately have "u \<le> f" "f \<le> 1 - u"
      by (simp_all add: u_def)
    then have "real_of_int n \<le> y" "y < real_of_int n + 1"
      using y by linarith+
    then have "\<lfloor>y\<rfloor> = n" by linarith
    then show ?thesis by (simp add: n_def)
  qed
qed


lemma math_round_floor:
  assumes "0 < s"
  shows "math_round (Dbl m (- int s)) = Dbl \<lfloor>real_of_int m / 2 ^ s + 1 / 2\<rfloor> 0"
proof -
  have "real_of_int m / 2 ^ s + 1 / 2 = real_of_int (2 * m + 2 ^ s) / real_of_int (2 ^ (s + 1))"
    by (simp add: add_divide_distrib)
  then have "\<lfloor>real_of_int m / 2 ^ s + 1 / 2\<rfloor> = (2 * m + 2 ^ s) div 2 ^ (s + 1)"
    by (simp only: floor_divide_of_int_eq)
  then show ?thesis
    using assms by simp
qed

lemma half_ulp_le:
  assumes "k \<le> s"
  shows "1 / (2 * 2 ^ s) \<le> (1::real) / (2 * 2 ^ k)"
proof -
  have "(2::real) ^ k \<le> 2 ^ s"
    using assms by (intro power_increasing) simp_all
  then show ?thesis
    by (simp add: frac_le)
qed

text \<open>
  The value that \<^verbatim>\<open>Math.round\<close> receives differs from the exact percentage by less
  than \<open>2^-45\<close>.
\<close>

lemma ratePercent_near:
  assumes "0 < t" "p \<le> t"
  shows "\<exists>y::real. ratePercent p t = Dbl \<lfloor>y + 1 / 2\<rfloor> 0
           \<and> \<bar>y - 100 * real p / real t\<bar> < 1 / 2 ^ 45"
proof (cases "p = 0")
  case True
  have "ratePercent p t = Dbl \<lfloor>(0::real) + 1 / 2\<rfloor> 0"
    using assms(1) True by (simp add: ratePercent_def toNumber_def nearestDouble_def)
  moreover have "\<bar>(0::real) - 100 * real p / real t\<bar> < 1 / 2 ^ 45"
    using True by simp
  ultimately show ?thesis by blast
next
  case False
  define x where "x = real p / real t"
  have x1: "x \<le> 1" using assms by (simp add: x_def)
  have x0: "0 \<le> x" by (simp add: x_def)
  have pt: "0 < int p" "0 < int t" "int p < int t * 2 ^ 1" "(1::nat) \<le> 52"
    using assms False by simp_all
  obtain m s where d: "nearestDouble (int p) (int t) = Dbl m (- int s)"
    and s: "52 < s + 1" and m0: "0 \<le> m"
    and near: "\<bar>real_of_int m / 2 ^ s - real_of_int (int p) / real_of_int (int t)\<bar>
                 \<le> 1 / (2 * 2 ^ s)"
    using nearestDouble_near [OF pt] by blast
  define q where "q = real_of_int m / 2 ^ s"
  have s52: "52 \<le> s" using s by simp
  have "\<bar>q - x\<bar> \<le> 1 / (2 * 2 ^ s)"
    using near by (simp only: q_def x_def of_int_of_nat_eq)
  then have nq: "\<bar>q - x\<bar> \<le> 1 / (2 * 2 ^ 52)"
    using half_ulp_le [OF s52] by (rule order_trans)
  have q: "js_div (toNumber p) (toNumber t) = Dbl m (- int s)"
    using assms(1) d by (simp add: toNumber_def)
  have pr: "js_mul (Dbl m (- int s)) (toNumber 100) = nearestDouble (m * 100) (2 ^ s)"
    by (simp add: toNumber_def)
  show ?thesis
  proof (cases "m = 0")
    case True
    then have "ratePercent p t = Dbl \<lfloor>(0::real) + 1 / 2\<rfloor> 0"
      using q pr by (simp add: ratePercent_def nearestDouble_def)
    moreover have "q = 0" using True by (simp add: q_def)
    then have "\<bar>x\<bar> \<le> 1 / (2 * 2 ^ 52)"
      using nq by simp
    then have "\<bar>(0::real) - 100 * x\<bar> < 1 / 2 ^ 45"
      using x0 by simp
    ultimately show ?thesis unfolding x_def by (metis times_divide_eq_right)
  next
    case False
    have qb: "q \<le> 1 + 1 / (2 * 2 ^ 52)" using nq x1 by linarith
    have sp: "0 < (2::real) ^ s" by simp
    have "real_of_int m = q * 2 ^ s" by (simp add: q_def)
    also have "\<dots> \<le> (1 + 1 / (2 * 2 ^ 52)) * 2 ^ s"
      using qb sp by (intro mult_right_mono) simp_all
    also have "\<dots> < (128 / 100) * 2 ^ s"
      using sp by (intro mult_strict_right_mono) simp_all
    finally have "real_of_int m * 100 < 128 * 2 ^ s" by simp
    then have "real_of_int (m * 100) < real_of_int (128 * 2 ^ s)" by simp
    then have "m * 100 < 128 * 2 ^ s" by (simp only: of_int_less_iff)
    then have a: "0 < m * 100" "0 < (2::int) ^ s" "m * 100 < 2 ^ s * 2 ^ 7" "(7::nat) \<le> 52"
      using False m0 by simp_all
    obtain m' s' where d': "nearestDouble (m * 100) (2 ^ s) = Dbl m' (- int s')"
      and s': "52 < s' + 7"
      and near': "\<bar>real_of_int m' / 2 ^ s' - real_of_int (m * 100) / real_of_int (2 ^ s)\<bar>
                 \<le> 1 / (2 * 2 ^ s')"
      using nearestDouble_near [OF a] by blast
    define y where "y = real_of_int m' / 2 ^ s'"
    have s46: "46 \<le> s'" "0 < s'" using s' by simp_all
    have "real_of_int (m * 100) / real_of_int (2 ^ s) = 100 * q"
      by (simp add: q_def)
    then have "\<bar>y - 100 * q\<bar> \<le> 1 / (2 * 2 ^ s')"
      using near' by (simp only: y_def)
    then have ny: "\<bar>y - 100 * q\<bar> \<le> 1 / (2 * 2 ^ 46)"
      using half_ulp_le [OF s46(1)] by (rule order_trans)
    have r: "ratePercent p t = Dbl \<lfloor>y + 1 / 2\<rfloor> 0"
      using q pr d' math_round_floor [OF s46(2), of m'] by (simp add: ratePercent_def y_def)
    have "\<bar>y - 100 * x\<bar> \<le> 1 / (2 * 2 ^ 46) + 100 * (1 / (2 * 2 ^ 52))"
      using ny nq by linarith
    also have "\<dots> < 1 / 2 ^ 45" by simp
    finally have "\<bar>y - 100 * real p / real t\<bar> < 1 / 2 ^ 45"
      by (simp add: x_def)
    then show ?thesis using r by blast
  qed
qed

section \<open>Overview: results\<close>

lemma overviewTotals_foldl:
  "foldl (\<lambda>(totalPresent, totalStudents) attendance.
            (totalPresent + presentCount (records attendance),
             totalStudents + length (records attendance)))
         (p, t) st
   = (p + sumPresent st, t + sumTotal st)"
  by (induction st arbitrary: p t) (simp_all add: sumPresent_def sumTotal_def)

lemma overviewTotals_sums: "overviewTotals st = (sumPresent st, sumTotal st)"
  by (simp add: overviewTotals_def overviewTotals_foldl)

text \<open>The exact rounding, in whole numbers.\<close>

lemma roundHalfUp_exactPercent:
  assumes "0 < t"
  shows "roundHalfUp (exactPercent p t) = (200 * int p + int t) div (2 * int t)"
proof -
  have t: "(of_nat t :: rat) \<noteq> 0" using assms by simp
  have "exactPercent p t + 1 / 2 = of_int (200 * int p + int t) / of_int (2 * int t)"
    using t by (simp add: exactPercent_def field_simps)
  then show ?thesis
    by (simp only: roundHalfUp_def floor_divide_of_int_eq)
qed

lemma halfway_exactPercent:
  assumes "0 < t" "2 * int t dvd 200 * int p + int t"
  shows "exactPercent p t - of_int \<lfloor>exactPercent p t\<rfloor> = 1 / 2"
proof -
  obtain k where k: "200 * int p + int t = 2 * int t * k"
    using assms(2) by (auto simp add: dvd_def)
  have t: "(of_nat t :: rat) \<noteq> 0" using assms by simp
  have "(of_int (200 * int p + int t) :: rat) = of_int (2 * int t * k)"
    by (simp only: k)
  then have "200 * (of_nat p :: rat) + of_nat t = 2 * of_nat t * of_int k"
    by simp
  then have "200 * (of_nat p :: rat) = of_nat t * (2 * of_int k - 1)"
    by (simp add: algebra_simps)
  then have "200 * (of_nat p :: rat) / of_nat t = 2 * of_int k - 1"
    using t by (simp add: field_simps)
  then have x: "exactPercent p t = of_int (k - 1) + 1 / 2"
    by (simp add: exactPercent_def)
  have "\<lfloor>exactPercent p t\<rfloor> = k - 1"
    unfolding x by linarith
  then show ?thesis using x by simp
qed

text \<open>
  The rate the code computes is the exact rounding, except that an exact half may come
  out one lower.
\<close>

lemma ratePercent_exact:
  assumes "0 < t" "p \<le> t" "t \<le> 2 ^ 44"
  shows "\<exists>n. ratePercent p t = Dbl n 0
           \<and> (n = roundHalfUp (exactPercent p t)
                \<or> (n = roundHalfUp (exactPercent p t) - 1
                    \<and> exactPercent p t - of_int \<lfloor>exactPercent p t\<rfloor> = 1 / 2))"
proof -
  obtain y :: real where r: "ratePercent p t = Dbl \<lfloor>y + 1 / 2\<rfloor> 0"
    and y: "\<bar>y - 100 * real p / real t\<bar> < 1 / 2 ^ 45"
    using ratePercent_near [OF assms(1,2)] by blast
  define A where "A = 200 * int p + int t"
  define B where "B = 2 * int t"
  have B: "0 < B" using assms(1) by (simp add: B_def)
  have tr: "real t \<noteq> 0" using assms(1) by simp
  have "real_of_int A / real_of_int B = (200 * real p + real t) / (2 * real t)"
    by (simp add: A_def B_def)
  also have "\<dots> = 200 * real p / (2 * real t) + real t / (2 * real t)"
    by (rule add_divide_distrib)
  also have "200 * real p / (2 * real t) = 100 * real p / real t"
    by simp
  also have "real t / (2 * real t) = 1 / 2"
    using tr by simp
  finally have "real_of_int A / real_of_int B = 100 * real p / real t + 1 / 2" .
  then have 1: "\<bar>(y + 1 / 2) - real_of_int A / real_of_int B\<bar> < 1 / 2 ^ 45"
    using y by simp
  have "int t \<le> int (2 ^ 44)" using assms(3) by (simp only: of_nat_le_iff)
  then have "B \<le> 2 ^ 45" by (simp add: B_def)
  then have "real_of_int B \<le> real_of_int (2 ^ 45)" by (simp only: of_int_le_iff)
  then have "real_of_int B \<le> 2 ^ 45" by simp
  then have 2: "(1::real) / 2 ^ 45 \<le> 1 / real_of_int B"
    using B by (intro divide_left_mono) simp_all
  have "\<lfloor>y + 1 / 2\<rfloor> = A div B \<or> (\<lfloor>y + 1 / 2\<rfloor> = A div B - 1 \<and> B dvd A)"
    by (rule floor_near [OF B 1 2])
  then show ?thesis
    using r roundHalfUp_exactPercent [OF assms(1), of p] halfway_exactPercent [OF assms(1), of p]
    by (auto simp add: A_def B_def)
qed

text \<open>
  C5, as amended. For every store of at most \<open>2^44\<close> records, \<open>overview\<close> reports
  \<open>totalRecords\<close> and \<open>totalClasses\<close> equal to the number of sheets, and an
  \<open>averageAttendance\<close> that is the exact value of
  round(sum of present / sum of records * 100) (0 when there is no sheet or no record),
  or one less than it when the exact percentage lies halfway between two whole numbers:
  the rate is computed in double precision, where the quotient is rounded before it is
  multiplied by 100. This holds in \<^verbatim>\<open>main.js\<close> and in the hardened variant, which
  reports the same average.
\<close>

theorem overview_counts_and_rounded_average:
  assumes "sumTotal st \<le> 2 ^ 44"
  shows "totalRecords (overview_main st) = length st
   \<and> totalClasses (overview_main st) = length st
   \<and> hTotalRecords (overview_hardened st) = length st
   \<and> hTotalClasses (overview_hardened st) = length st
   \<and> hAverageAttendance (overview_hardened st) = averageAttendance (overview_main st)
   \<and> (\<exists>n. averageAttendance (overview_main st) = Dbl n 0
          \<and> (n = specAverage st \<or> (n = specAverage st - 1 \<and> halfway st)))"
proof (cases "st = [] \<or> sumTotal st = 0")
  case True
  then show ?thesis
    by (auto simp add: overview_main_def overview_hardened_def overviewTotals_sums
          specAverage_def toNumber_def Let_def)
next
  case False
  then have l: "length st \<noteq> 0" and t: "0 < sumTotal st" by simp_all
  have p: "sumPresent st \<le> sumTotal st"
    unfolding sumPresent_def sumTotal_def
    by (rule sum_list_mono) (simp add: presentCount_def)
  have a: "averageAttendance (overview_main st) = ratePercent (sumPresent st) (sumTotal st)"
    using l t by (simp add: overview_main_def overviewTotals_sums Let_def)
  have h: "hAverageAttendance (overview_hardened st) = ratePercent (sumPresent st) (sumTotal st)"
    using l t by (simp add: overview_hardened_def overviewTotals_sums Let_def)
  have c: "totalRecords (overview_main st) = length st"
    "totalClasses (overview_main st) = length st"
    "hTotalRecords (overview_hardened st) = length st"
    "hTotalClasses (overview_hardened st) = length st"
    using l by (simp_all add: overview_main_def overview_hardened_def overviewTotals_sums Let_def)
  have s: "specAverage st = roundHalfUp (exactPercent (sumPresent st) (sumTotal st))"
    using l t by (simp add: specAverage_def)
  have "\<exists>n. averageAttendance (overview_main st) = Dbl n 0
          \<and> (n = specAverage st \<or> (n = specAverage st - 1 \<and> halfway st))"
    using ratePercent_exact [OF t p assms] by (simp add: a s halfway_def Let_def)
  then show ?thesis
    using a h c by simp
qed

lemma mkSheet_counts:
  "p \<le> t \<Longrightarrow> presentCount (records (mkSheet d p t)) = p"
  "length (records (mkSheet d p t)) = p + (t - p)"
  by (simp_all add: mkSheet_def presentCount_def mkRecord_def)

theorem overview_three_sheets_witness:
  "sumTotal [mkSheet ''2024-01-10'' 8 10, mkSheet ''2024-01-11'' 5 5,
       mkSheet ''2024-01-12'' 0 5] \<le> 2 ^ 44
   \<and> totalRecords (overview_main [mkSheet ''2024-01-10'' 8 10, mkSheet ''2024-01-11'' 5 5,
       mkSheet ''2024-01-12'' 0 5]) = 3
   \<and> totalClasses (overview_main [mkSheet ''2024-01-10'' 8 10, mkSheet ''2024-01-11'' 5 5,
       mkSheet ''2024-01-12'' 0 5]) = 3
   \<and> averageAttendance (overview_main [mkSheet ''2024-01-10'' 8 10, mkSheet ''2024-01-11'' 5 5,
       mkSheet ''2024-01-12'' 0 5]) = Dbl 65 0
   \<and> hAverageAttendance (overview_hardened [mkSheet ''2024-01-10'' 8 10,
       mkSheet ''2024-01-11'' 5 5, mkSheet ''2024-01-12'' 0 5]) = Dbl 65 0"
proof -
  let ?st = "[mkSheet ''2024-01-10'' 8 10, mkSheet ''2024-01-11'' 5 5, mkSheet ''2024-01-12'' 0 5]"
  have t: "sumTotal ?st = 20" and p: "sumPresent ?st = 13"
    by (simp_all add: sumTotal_def sumPresent_def mkSheet_counts)
  have s: "specAverage ?st = 65"
    by (simp add: specAverage_def t p roundHalfUp_exactPercent)
  have h: "\<not> halfway ?st"
    by (simp add: halfway_def t p exactPercent_def)
  have b: "sumTotal ?st \<le> 2 ^ 44" by (simp add: t)
  show ?thesis
    using overview_counts_and_rounded_average [OF b] b by (simp add: s h)
qed

text \<open>
  C5 as stated fails for a sheet with 23 present among 40 records: the exact percentage
  is 57.5, which rounds to 58, while the code divides first (the double nearest to 0.575
  lies below it), multiplies by 100 to 57.49999999999999 and reports 57.
\<close>

theorem overview_average_of_23_in_40:
  "averageAttendance (overview_main [mkSheet ''2024-01-10'' 23 40]) = Dbl 57 0
   \<and> hAverageAttendance (overview_hardened [mkSheet ''2024-01-10'' 23 40]) = Dbl 57 0
   \<and> specAverage [mkSheet ''2024-01-10'' 23 40] = 58"
proof -
  let ?st = "[mkSheet ''2024-01-10'' 23 40]"
  have t: "sumTotal ?st = 40" and p: "sumPresent ?st = 23"
    by (simp_all add: sumTotal_def sumPresent_def mkSheet_counts)
  have r: "ratePercent 23 40 = Dbl 57 0"
    by (simp add: double_eval)
  have s: "specAverage ?st = 58"
    by (simp add: specAverage_def t p roundHalfUp_exactPercent)
  show ?thesis
    by (simp add: overview_main_def overview_hardened_def overviewTotals_sums t p r s Let_def)
qed

section \<open>Dates: the string order is the chronological order\<close>

lemma div_step:
  fixes k n :: int
  assumes "0 < n"
  shows "(k + 1) div n = k div n + (if (k + 1) mod n = 0 then 1 else 0)"
proof -
  define q where "q = k div n"
  define r where "r = k mod n"
  have k: "k = n * q + r" by (simp add: q_def r_def)
  have r: "0 \<le> r" "r < n" using assms by (simp_all add: r_def)
  show ?thesis
  proof (cases "r + 1 = n")
    case True
    then have e: "k + 1 = n * (q + 1) + 0" using k by (simp add: algebra_simps)
    have "(k + 1) div n = q + 1"
      using e assms by (intro int_div_pos_eq[where r = 0]) simp_all
    moreover have "(k + 1) mod n = 0"
      using e assms by (intro int_mod_pos_eq[where q = "q + 1"]) simp_all
    ultimately show ?thesis by (simp add: q_def)
  next
    case False
    then have lt: "r + 1 < n" using r by simp
    have e: "k + 1 = n * q + (r + 1)" using k by simp
    have "(k + 1) div n = q"
      using e lt r by (intro int_div_pos_eq[where r = "r + 1"]) simp_all
    moreover have "(k + 1) mod n = r + 1"
      using e lt r by (intro int_mod_pos_eq[where q = q]) simp_all
    ultimately show ?thesis using r by (simp add: q_def)
  qed
qed

lemma int_mod_zero: "(int y mod int n = 0) = (y mod n = 0)"
  by (metis of_nat_eq_0_iff zmod_int)
lemma shifted_mod:
  fixes y :: nat
  shows "((int y - 1968) mod 4 = 0) = (y mod 4 = 0)"
    and "((int y - 1900) mod 100 = 0) = (y mod 100 = 0)"
    and "((int y - 1600) mod 400 = 0) = (y mod 400 = 0)"
proof -
  have "(int y + (- 492) * 4) mod 4 = int y mod 4" by (rule mod_mult_self1)
  then show "((int y - 1968) mod 4 = 0) = (y mod 4 = 0)"
    using int_mod_zero [of y 4] by simp
  have "(int y + (- 19) * 100) mod 100 = int y mod 100" by (rule mod_mult_self1)
  then show "((int y - 1900) mod 100 = 0) = (y mod 100 = 0)"
    using int_mod_zero [of y 100] by simp
  have "(int y + (- 4) * 400) mod 400 = int y mod 400" by (rule mod_mult_self1)
  then show "((int y - 1600) mod 400 = 0) = (y mod 400 = 0)"
    using int_mod_zero [of y 400] by simp
qed
lemma m1: "(y::nat) mod 400 = 0 \<Longrightarrow> y mod 100 = 0"
  using mod_mod_cancel [of 100 400 y] by simp
lemma m2: "(y::nat) mod 100 = 0 \<Longrightarrow> y mod 4 = 0"
  using mod_mod_cancel [of 4 100 y] by simp
lemma daysInYear_cases:
  "int (daysInYear y) =
     365 + (if y mod 4 = 0 then 1 else 0) - (if y mod 100 = 0 then 1 else 0)
       + (if y mod 400 = 0 then 1 else 0)"
  using m1 [of y] m2 [of y] by (simp add: daysInYear_def isLeap_def)

lemma dayFromYear_Suc: "dayFromYear (Suc y) = dayFromYear y + int (daysInYear y)"
proof -
  define A :: int where "A = (if y mod 4 = 0 then 1 else 0)"
  define B :: int where "B = (if y mod 100 = 0 then 1 else 0)"
  define C :: int where "C = (if y mod 400 = 0 then 1 else 0)"
  have a: "(int y - 1968) div 4 = (int y - 1969) div 4 + A"
    using div_step [of 4 "int y - 1969"] by (simp add: shifted_mod A_def)
  have b: "(int y - 1900) div 100 = (int y - 1901) div 100 + B"
    using div_step [of 100 "int y - 1901"] by (simp add: shifted_mod B_def)
  have c: "(int y - 1600) div 400 = (int y - 1601) div 400 + C"
    using div_step [of 400 "int y - 1601"] by (simp add: shifted_mod C_def)
  have "dayFromYear (Suc y) =
          365 * (int y - 1969) + (int y - 1968) div 4 - (int y - 1900) div 100
            + (int y - 1600) div 400"
    by (simp add: dayFromYear_def)
  also have "\<dots> = 365 * (int y - 1969) + ((int y - 1969) div 4 + A)
                 - ((int y - 1901) div 100 + B) + ((int y - 1601) div 400 + C)"
    by (simp only: a b c)
  also have "\<dots> = dayFromYear y + (365 + A - B + C)"
    by (simp add: dayFromYear_def)
  finally show ?thesis
    by (simp only: daysInYear_cases A_def B_def C_def)
qed

lemma dayFromYear_mono: "y < y' \<Longrightarrow> dayFromYear y + int (daysInYear y) \<le> dayFromYear y'"
proof (induction y')
  case 0
  then show ?case by simp
next
  case (Suc y')
  show ?case
  proof (cases "y = y'")
    case True
    then show ?thesis by (simp add: dayFromYear_Suc)
  next
    case False
    with Suc have "dayFromYear y + int (daysInYear y) \<le> dayFromYear y'" by simp
    then show ?thesis by (simp add: dayFromYear_Suc)
  qed
qed

lemma monthStart_Suc: "1 \<le> m \<Longrightarrow> monthStart y (Suc m) = monthStart y m + daysInMonth y m"
  by (simp add: monthStart_def)

lemma monthStart_mono: "1 \<le> m \<Longrightarrow> m < m' \<Longrightarrow> monthStart y m + daysInMonth y m \<le> monthStart y m'"
proof (induction m')
  case 0
  then show ?case by simp
next
  case (Suc m')
  show ?case
  proof (cases "m = m'")
    case True
    with Suc.prems show ?thesis by (simp add: monthStart_Suc)
  next
    case False
    with Suc have "monthStart y m + daysInMonth y m \<le> monthStart y m'" by simp
    moreover have "1 \<le> m'" using Suc.prems False by simp
    ultimately show ?thesis by (simp add: monthStart_Suc)
  qed
qed

lemma monthStart_13: "monthStart y 13 = daysInYear y"
  by (simp add: monthStart_def daysInYear_def daysInMonth_def upt_rec)

lemma dayWithinYear_monthStart: "dayWithinYear y m d = monthStart y m + (d - 1)"
  by (simp add: dayWithinYear_def monthStart_def)

lemma dayWithinYear_bound:
  assumes "validYmd (y, m, d)"
  shows "dayWithinYear y m d < daysInYear y"
proof -
  from assms have m: "1 \<le> m" "m < 13" and d: "1 \<le> d" "d \<le> daysInMonth y m"
    by (simp_all add: validYmd_def)
  have "monthStart y m + daysInMonth y m \<le> monthStart y 13"
    using m by (rule monthStart_mono)
  then show ?thesis
    using d by (simp add: dayWithinYear_monthStart monthStart_13)
qed

lemma daysInMonth_le: "daysInMonth y m \<le> 31"
  by (simp add: daysInMonth_def)

lemma timeOfYmd_mono:
  assumes v: "validYmd (y, m, d)" and v': "validYmd (y', m', d')"
    and k: "ymdKey (y, m, d) < ymdKey (y', m', d')"
  shows "timeOfYmd (y, m, d) < timeOfYmd (y', m', d')"
proof -
  from v have m: "1 \<le> m" "m \<le> 12" and d: "1 \<le> d" "d \<le> daysInMonth y m"
    by (simp_all add: validYmd_def)
  from v' have m': "1 \<le> m'" "m' \<le> 12" and d': "1 \<le> d'" "d' \<le> daysInMonth y' m'"
    by (simp_all add: validYmd_def)
  have d31: "d \<le> 31" "d' \<le> 31"
    using d d' daysInMonth_le [of y m] daysInMonth_le [of y' m'] by simp_all
  from k m m' d31 consider "y < y'" | "y = y'" "m < m'" | "y = y'" "m = m'" "d < d'"
    unfolding ymdKey_def by (simp only: prod.case) linarith
  then have "dayFromYear y + int (dayWithinYear y m d) < dayFromYear y' + int (dayWithinYear y' m' d')"
  proof cases
    case 1
    have "dayFromYear y + int (dayWithinYear y m d) < dayFromYear y + int (daysInYear y)"
      using dayWithinYear_bound [OF v] by simp
    also have "\<dots> \<le> dayFromYear y'" using 1 by (rule dayFromYear_mono)
    finally show ?thesis by simp
  next
    case 2
    have "monthStart y m + daysInMonth y m \<le> monthStart y m'"
      using m(1) 2(2) by (rule monthStart_mono)
    then show ?thesis
      using 2 d d' by (simp add: dayWithinYear_monthStart)
  next
    case 3
    then show ?thesis
      using d d' by (simp add: dayWithinYear_monthStart)
  qed
  then show ?thesis
    by (simp add: timeOfYmd_def msPerDay_def)
qed

lemma lex_step:
  fixes a a' r r' B :: nat
  assumes "r < B" "r' < B"
  shows "(a * B + r < a' * B + r') = (a < a' \<or> a = a' \<and> r < r')"
proof (cases a a' rule: linorder_cases)
  case less
  then have "Suc a * B \<le> a' * B" by (intro mult_le_mono1) simp
  then have "a * B + r < a' * B + r'" using assms by simp
  then show ?thesis using less by simp
next
  case equal
  then show ?thesis by simp
next
  case greater
  then have "Suc a' * B \<le> a * B" by (intro mult_le_mono1) simp
  then have "\<not> a * B + r < a' * B + r'" using assms by simp
  then show ?thesis using greater by simp
qed

lemma decVal_bound: "\<forall>x\<in>set xs. x \<le> 9 \<Longrightarrow> decVal xs < 10 ^ length xs"
proof (induction xs)
  case Nil
  then show ?case by simp
next
  case (Cons x xs)
  then have "decVal xs < 10 ^ length xs" and "x \<le> 9" by simp_all
  then have "x * 10 ^ length xs + decVal xs < 9 * 10 ^ length xs + 10 ^ length xs"
    by (intro add_le_less_mono mult_le_mono1) simp_all
  then show ?case by simp
qed

lemma decVal_less:
  "length xs = length ys \<Longrightarrow> \<forall>x\<in>set xs. x \<le> 9 \<Longrightarrow> \<forall>y\<in>set ys. y \<le> 9 \<Longrightarrow>
     (xs < ys) = (decVal xs < decVal ys) \<and> (xs = ys) = (decVal xs = decVal ys)"
proof (induction xs ys rule: list_induct2)
  case Nil
  then show ?case by simp
next
  case (Cons x xs y ys)
  then have ih: "(xs < ys) = (decVal xs < decVal ys)" "(xs = ys) = (decVal xs = decVal ys)"
    by simp_all
  have b: "decVal xs < 10 ^ length ys" "decVal ys < 10 ^ length ys"
    using Cons decVal_bound [of xs] decVal_bound [of ys] by simp_all
  have l: "(x * 10 ^ length ys + decVal xs < y * 10 ^ length ys + decVal ys)
             = (x < y \<or> x = y \<and> decVal xs < decVal ys)"
    using b by (rule lex_step)
  have e: "(x * 10 ^ length ys + decVal xs = y * 10 ^ length ys + decVal ys)
             = (x = y \<and> decVal xs = decVal ys)"
    using lex_step [OF b, of x y] lex_step [OF b(2) b(1), of y x] by auto
  show ?case
    using Cons.hyps ih l e by simp
qed

lemma digit_facts:
  assumes "isDigit a" "isDigit b"
  shows "digitVal a \<le> 9" "(a < b) = (digitVal a < digitVal b)" "(a = b) = (digitVal a = digitVal b)"
proof -
  have a: "48 \<le> (of_char a :: nat)" "(of_char a :: nat) \<le> 57"
    using assms(1) by (simp_all add: isDigit_def less_eq_char_def)
  have b: "48 \<le> (of_char b :: nat)" "(of_char b :: nat) \<le> 57"
    using assms(2) by (simp_all add: isDigit_def less_eq_char_def)
  show "digitVal a \<le> 9" using a by (simp add: digitVal_def)
  show "(a < b) = (digitVal a < digitVal b)"
    using a b by (auto simp add: digitVal_def less_char_def)
  define na nb :: nat where "na = of_char a" and "nb = of_char b"
  have "48 \<le> na" "48 \<le> nb" using a b by (simp_all add: na_def nb_def)
  then have "na - 48 = nb - 48 \<Longrightarrow> na = nb" by arith
  then have "digitVal a = digitVal b \<Longrightarrow> a = b"
    by (simp add: digitVal_def na_def nb_def)
  then show "(a = b) = (digitVal a = digitVal b)"
    by blast
qed

lemma digits_less:
  "length cs = length cs' \<Longrightarrow> list_all isDigit cs \<Longrightarrow> list_all isDigit cs' \<Longrightarrow>
     (cs < cs') = (map digitVal cs < map digitVal cs')
     \<and> (cs = cs') = (map digitVal cs = map digitVal cs')"
proof (induction cs cs' rule: list_induct2)
  case Nil
  then show ?case by simp
next
  case (Cons c cs c' cs')
  then have ih: "(cs < cs') = (map digitVal cs < map digitVal cs')"
      "(cs = cs') = (map digitVal cs = map digitVal cs')"
    by simp_all
  have "isDigit c" "isDigit c'" using Cons.prems by simp_all
  then have d: "(c < c') = (digitVal c < digitVal c')" "(c = c') = (digitVal c = digitVal c')"
    by (rule digit_facts)+
  show ?case using ih d by simp
qed

lemma parseIsoDate_SomeD:
  assumes "parseIsoDate s = Some k"
  obtains y1 y2 y3 y4 m1 m2 d1 d2 where
    "s = [y1, y2, y3, y4, CHR ''-'', m1, m2, CHR ''-'', d1, d2]"
    "list_all isDigit [y1, y2, y3, y4, m1, m2, d1, d2]"
    "k = (1000 * digitVal y1 + 100 * digitVal y2 + 10 * digitVal y3 + digitVal y4,
          10 * digitVal m1 + digitVal m2, 10 * digitVal d1 + digitVal d2)"
  using assms by (cases s rule: parseIsoDate.cases) (auto split: if_splits)

lemma canonical_order:
  assumes "parseIsoDate s = Some k" "parseIsoDate t = Some k'"
  shows "(s < t) = (ymdKey k < ymdKey k')" "(s = t) = (ymdKey k = ymdKey k')"
proof -
  from assms(1) obtain y1 y2 y3 y4 m1 m2 d1 d2 where
    s: "s = [y1, y2, y3, y4, CHR ''-'', m1, m2, CHR ''-'', d1, d2]"
    and ds: "list_all isDigit [y1, y2, y3, y4, m1, m2, d1, d2]"
    and k: "k = (1000 * digitVal y1 + 100 * digitVal y2 + 10 * digitVal y3 + digitVal y4,
          10 * digitVal m1 + digitVal m2, 10 * digitVal d1 + digitVal d2)"
    by (rule parseIsoDate_SomeD)
  from assms(2) obtain z1 z2 z3 z4 n1 n2 e1 e2 where
    t: "t = [z1, z2, z3, z4, CHR ''-'', n1, n2, CHR ''-'', e1, e2]"
    and dt: "list_all isDigit [z1, z2, z3, z4, n1, n2, e1, e2]"
    and k': "k' = (1000 * digitVal z1 + 100 * digitVal z2 + 10 * digitVal z3 + digitVal z4,
          10 * digitVal n1 + digitVal n2, 10 * digitVal e1 + digitVal e2)"
    by (rule parseIsoDate_SomeD)
  let ?cs = "[y1, y2, y3, y4, m1, m2, d1, d2]"
  let ?ct = "[z1, z2, z3, z4, n1, n2, e1, e2]"
  have st: "(s < t) = (?cs < ?ct)" "(s = t) = (?cs = ?ct)"
    unfolding s t by auto
  have c: "(?cs < ?ct) = (map digitVal ?cs < map digitVal ?ct)"
      "(?cs = ?ct) = (map digitVal ?cs = map digitVal ?ct)"
    using digits_less [OF _ ds dt] by simp_all
  have b: "\<forall>x\<in>set (map digitVal ?cs). x \<le> 9" "\<forall>x\<in>set (map digitVal ?ct). x \<le> 9"
    using ds dt digit_facts(1) by (auto simp add: list_all_iff)
  have v: "(map digitVal ?cs < map digitVal ?ct) = (decVal (map digitVal ?cs) < decVal (map digitVal ?ct))"
      "(map digitVal ?cs = map digitVal ?ct) = (decVal (map digitVal ?cs) = decVal (map digitVal ?ct))"
    using decVal_less [OF _ b] by simp_all
  have kk: "ymdKey k = decVal (map digitVal ?cs)" "ymdKey k' = decVal (map digitVal ?ct)"
    unfolding k k' ymdKey_def by simp_all
  show "(s < t) = (ymdKey k < ymdKey k')"
    by (simp only: st c v kk)
  show "(s = t) = (ymdKey k = ymdKey k')"
    by (simp only: st c v kk)
qed

lemma dateValue_order:
  assumes "dateValue s = Some a" "dateValue t = Some b"
  shows "(s \<le> t) = (a \<le> b)"
proof -
  from assms(1) obtain k where k: "parseIsoDate s = Some k" "validYmd k" "a = timeOfYmd k"
    by (auto simp add: dateValue_def split: option.splits if_splits)
  from assms(2) obtain k' where k': "parseIsoDate t = Some k'" "validYmd k'" "b = timeOfYmd k'"
    by (auto simp add: dateValue_def split: option.splits if_splits)
  have lt: "s < t \<Longrightarrow> a < b"
    using k k' canonical_order(1) [OF k(1) k'(1)] timeOfYmd_mono [of "fst k" "fst (snd k)" "snd (snd k)" "fst k'" "fst (snd k')" "snd (snd k')"]
    by simp
  have gt: "t < s \<Longrightarrow> b < a"
    using k k' canonical_order(1) [OF k'(1) k(1)] timeOfYmd_mono [of "fst k'" "fst (snd k')" "snd (snd k')" "fst k" "fst (snd k)" "snd (snd k)"]
    by simp
  have eq: "s = t \<Longrightarrow> a = b"
    using assms by simp
  show ?thesis
    using lt gt eq by (cases s t rule: linorder_cases) auto
qed

section \<open>Sorting: results\<close>

lemma insertBy_insort:
  assumes "\<And>y. y \<in> set ys \<Longrightarrow> (compareResult (cmp x y) \<le> 0) = (f x \<le> f y)"
  shows "insertBy cmp x ys = insort_key f x ys"
  using assms by (induction ys) simp_all

lemma jsSort_sort_key:
  fixes f :: "'a \<Rightarrow> int"
  assumes "\<And>x y. x \<in> set xs \<Longrightarrow> y \<in> set xs \<Longrightarrow> (compareResult (cmp x y) \<le> 0) = (f x \<le> f y)"
  shows "jsSort cmp xs = sort_key f xs"
  using assms
proof (induction xs)
  case Nil
  then show ?case by (simp add: jsSort_def)
next
  case (Cons x xs)
  have ih: "jsSort cmp xs = sort_key f xs"
    using Cons by simp
  have "insertBy cmp x (sort_key f xs) = insort_key f x (sort_key f xs)"
    by (rule insertBy_insort) (simp add: Cons.prems)
  then show ?case
    using ih by (simp add: jsSort_def)
qed

text \<open>Sorting by the date comparator, when every element has a time value.\<close>

lemma jsSort_by_time:
  fixes tv :: "'a \<Rightarrow> int option"
  assumes tv: "\<And>x. x \<in> set xs \<Longrightarrow> tv x \<noteq> None"
    and cmp: "\<And>a b. cmp a b = (case (tv b, tv a) of (Some tb, Some ta) \<Rightarrow> Some (tb - ta) | _ \<Rightarrow> None)"
  shows "jsSort cmp xs = sort_key (\<lambda>x. - the (tv x)) xs"
proof (rule jsSort_sort_key)
  fix x y
  assume "x \<in> set xs" "y \<in> set xs"
  then obtain tx ty where "tv x = Some tx" "tv y = Some ty"
    using tv by fastforce
  then show "(compareResult (cmp x y) \<le> 0) = (- the (tv x) \<le> - the (tv y))"
    by (simp add: cmp compareResult_def)
qed

lemma jsSort_by_time_sorted:
  fixes tv :: "'a \<Rightarrow> int option"
  assumes tv: "\<And>x. x \<in> set xs \<Longrightarrow> tv x \<noteq> None"
    and cmp: "\<And>a b. cmp a b = (case (tv b, tv a) of (Some tb, Some ta) \<Rightarrow> Some (tb - ta) | _ \<Rightarrow> None)"
  shows "sorted_wrt (\<lambda>x y. case (tv x, tv y) of (Some tx, Some ty) \<Rightarrow> ty \<le> tx | _ \<Rightarrow> False)
           (jsSort cmp xs)"
    and "mset (jsSort cmp xs) = mset xs"
proof -
  let ?f = "\<lambda>x. - the (tv x)"
  have e: "jsSort cmp xs = sort_key ?f xs"
    using tv cmp by (rule jsSort_by_time)
  show "mset (jsSort cmp xs) = mset xs"
    by (simp add: e)
  have "sorted (map ?f (sort_key ?f xs))"
    by (rule sorted_sort_key)
  then have s: "sorted_wrt (\<lambda>x y. ?f x \<le> ?f y) (sort_key ?f xs)"
    by (simp add: sorted_map)
  have "sorted_wrt (\<lambda>x y. case (tv x, tv y) of (Some tx, Some ty) \<Rightarrow> ty \<le> tx | _ \<Rightarrow> False)
          (sort_key ?f xs)"
  proof (rule sorted_wrt_mono_rel [OF _ s])
    fix x y
    assume "x \<in> set (sort_key ?f xs)" "y \<in> set (sort_key ?f xs)" "?f x \<le> ?f y"
    moreover from this obtain tx ty where "tv x = Some tx" "tv y = Some ty"
      using tv by fastforce
    ultimately show "case (tv x, tv y) of (Some tx, Some ty) \<Rightarrow> ty \<le> tx | _ \<Rightarrow> False"
      by simp
  qed
  then show "sorted_wrt (\<lambda>x y. case (tv x, tv y) of (Some tx, Some ty) \<Rightarrow> ty \<le> tx | _ \<Rightarrow> False)
           (jsSort cmp xs)"
    by (simp only: e)
qed

lemma summaryOf_sdate: "sdate (summaryOf a) = date a"
  by (simp add: summaryOf_def Let_def)

lemma listSummaries_main_sorted:
  assumes "validDates st"
  shows "sorted_wrt (\<lambda>x y. chronoGe (sdate x) (sdate y)) (listSummaries_main st)"
    and "mset (listSummaries_main st) = mset (map summaryOf st)"
proof -
  have tv: "\<And>x. x \<in> set (map summaryOf st) \<Longrightarrow> dateValue (sdate x) \<noteq> None"
    using assms by (auto simp add: validDates_def list_all_iff summaryOf_sdate)
  have cmp: "\<And>a b. dateDiff (sdate b) (sdate a)
      = (case (dateValue (sdate b), dateValue (sdate a)) of (Some tb, Some ta) \<Rightarrow> Some (tb - ta) | _ \<Rightarrow> None)"
    by (simp add: dateDiff_def)
  show "sorted_wrt (\<lambda>x y. chronoGe (sdate x) (sdate y)) (listSummaries_main st)"
    unfolding listSummaries_main_def chronoGe_def
    using tv cmp by (rule jsSort_by_time_sorted(1))
  show "mset (listSummaries_main st) = mset (map summaryOf st)"
    unfolding listSummaries_main_def
    using tv cmp by (rule jsSort_by_time_sorted(2))
qed

lemma listSummaries_hardened_sorted:
  assumes "validDates st"
  shows "sorted_wrt (\<lambda>x y. chronoGe (sdate x) (sdate y)) (listSummaries_hardened st)"
    and "mset (listSummaries_hardened st) = mset (map summaryOf st)"
proof -
  have "sorted (map date (sort_key date st))"
    by (rule sorted_sort_key)
  then have "sorted_wrt (\<lambda>x y. date x \<le> date y) (sort_key date st)"
    by (simp add: sorted_map)
  then have "sorted_wrt (\<lambda>x y. chronoGe (date y) (date x)) (sort_key date st)"
  proof (rule sorted_wrt_mono_rel [rotated])
    fix x y
    assume "x \<in> set (sort_key date st)" "y \<in> set (sort_key date st)" and le: "date x \<le> date y"
    then obtain tx ty where t: "dateValue (date x) = Some tx" "dateValue (date y) = Some ty"
      using assms by (fastforce simp add: validDates_def list_all_iff)
    then show "chronoGe (date y) (date x)"
      using le dateValue_order [OF t] by (simp add: chronoGe_def)
  qed
  then show "sorted_wrt (\<lambda>x y. chronoGe (sdate x) (sdate y)) (listSummaries_hardened st)"
    by (simp add: listSummaries_hardened_def mongoSortDateDesc_def sorted_wrt_map sorted_wrt_rev
          summaryOf_sdate)
  show "mset (listSummaries_hardened st) = mset (map summaryOf st)"
    by (simp add: listSummaries_hardened_def mongoSortDateDesc_def)
qed

section \<open>File variant: what a stored sheet yields\<close>

lemma field_recordJson:
  "field (recordJson r) ''name'' = Some (optJs (name r))"
  "field (recordJson r) ''status'' = Some (optJs (status r))"
  "field (recordJson r) ''timestamp'' = Some (optJs (timestamp r))"
  by (simp_all add: recordJson_def optJson_def optJs_def split: option.splits)

lemma those_status:
  "those (map (\<lambda>r. field (recordJson r) ''status'') rs) = Some (map (\<lambda>r. optJs (status r)) rs)"
  by (induction rs) (simp_all add: field_recordJson)

lemma optJs_eq: "(optJs v = JStr s) = (v = Some s)"
  by (simp add: optJs_def split: option.splits)

lemma countStatus_recordJson:
  "countStatus s (map recordJson rs) = Some (length (filter (\<lambda>r. status r = Some s) rs))"
  by (simp add: countStatus_def those_status filter_map o_def optJs_eq)

lemma fileSummary_sheetJson:
  "fileSummary (sheetJson a) =
     Some \<lparr>sdate = JStr (date a), totalStudents = length (records a),
           present = presentCount (records a), absent = absentCount (records a),
           attendanceRate = ratePercent (presentCount (records a)) (length (records a))\<rparr>"
  by (simp add: fileSummary_def sheetJson_def countStatus_recordJson getProp_def presentCount_def
        absentCount_def)

lemma map_filter_Some: "List.map_filter f (map g xs) = map h xs" if "\<And>x. f (g x) = Some (h x)"
  using that by (induction xs) simp_all

lemma listSummaries_file_sorted:
  assumes f: "sheetFiles dir st" and v: "validDates st"
  shows "sorted_wrt (\<lambda>x y. chronoGeJs (sdate x) (sdate y)) (listSummaries_file dir)"
    and "mset (map sdate (listSummaries_file dir)) = mset (map (\<lambda>a. JStr (date a)) st)"
proof -
  let ?sum = "\<lambda>a. \<lparr>sdate = JStr (date a), totalStudents = length (records a),
           present = presentCount (records a), absent = absentCount (records a),
           attendanceRate = ratePercent (presentCount (records a)) (length (records a))\<rparr>"
  let ?xs = "List.map_filter (\<lambda>(file, content). fileSummary content) (attendanceFiles dir)"
  have "?xs = List.map_filter fileSummary (map snd (attendanceFiles dir))"
    by (simp add: List.map_filter_def filter_map o_def case_prod_unfold)
  also have "\<dots> = List.map_filter fileSummary (map sheetJson st)"
    using f by (simp add: sheetFiles_def)
  also have "\<dots> = map ?sum st"
    by (rule map_filter_Some) (rule fileSummary_sheetJson)
  finally have xs: "?xs = map ?sum st" .
  have tv: "\<And>x. x \<in> set ?xs \<Longrightarrow> dateValueJs (sdate x) \<noteq> None"
    using v unfolding xs by (auto simp add: validDates_def list_all_iff dateValueJs_def)
  have cmp: "\<And>a b. dateDiffJs (sdate b) (sdate a)
      = (case (dateValueJs (sdate b), dateValueJs (sdate a)) of (Some tb, Some ta) \<Rightarrow> Some (tb - ta) | _ \<Rightarrow> None)"
    by (simp add: dateDiffJs_def)
  have s: "sorted_wrt (\<lambda>x y. chronoGeJs (sdate x) (sdate y)) (jsSort (\<lambda>a b. dateDiffJs (sdate b) (sdate a)) ?xs)"
    unfolding chronoGeJs_def using tv cmp by (rule jsSort_by_time_sorted(1))
  have m: "mset (jsSort (\<lambda>a b. dateDiffJs (sdate b) (sdate a)) ?xs) = mset ?xs"
    using tv cmp by (rule jsSort_by_time_sorted(2))
  have empty: "attendanceFiles dir = [] \<Longrightarrow> st = []"
    using f by (simp add: sheetFiles_def)
  show "sorted_wrt (\<lambda>x y. chronoGeJs (sdate x) (sdate y)) (listSummaries_file dir)"
    using s by (simp add: listSummaries_file_def Let_def)
  have "mset (map sdate (jsSort (\<lambda>a b. dateDiffJs (sdate b) (sdate a)) ?xs)) = mset (map sdate ?xs)"
    using m by (metis mset_map)
  then show "mset (map sdate (listSummaries_file dir)) = mset (map (\<lambda>a. JStr (date a)) st)"
    using empty by (auto simp add: listSummaries_file_def Let_def xs o_def)
qed

section \<open>Summaries: results\<close>

lemma summaryOf_counts:
  "totalStudents (summaryOf a) = length (records a)"
  "present (summaryOf a) = presentCount (records a)"
  "absent (summaryOf a) = totalStudents (summaryOf a) - present (summaryOf a)"
  "present (summaryOf a) + absent (summaryOf a) = totalStudents (summaryOf a)"
  "attendanceRate (summaryOf a) =
     (if length (records a) = 0 then Dbl 0 0
      else ratePercent (presentCount (records a)) (length (records a)))"
  by (simp_all add: summaryOf_def Let_def presentCount_def toNumber_def)

lemma presentCount_le: "presentCount rs \<le> length rs"
  by (simp add: presentCount_def)

lemma summaryOf_rate_bounds:
  "\<exists>n. attendanceRate (summaryOf a) = Dbl n 0 \<and> 0 \<le> n \<and> n \<le> 100"
proof (cases "length (records a) = 0")
  case True
  then show ?thesis by (simp add: summaryOf_def toNumber_def)
next
  case False
  then have "\<exists>n. ratePercent (presentCount (records a)) (length (records a)) = Dbl n 0
               \<and> 0 \<le> n \<and> n \<le> 100"
    by (intro ratePercent_bounds presentCount_le) simp
  then show ?thesis using False by (simp add: summaryOf_def Let_def)
qed

text \<open>
  On a store whose sheets all carry dates of the form \<^verbatim>\<open>YYYY-MM-DD\<close>,
  \<open>listSummaries\<close> returns one entry per sheet, sorted descending by the time value of
  the date: in \<^verbatim>\<open>main.js\<close> and in the file variant by the \<^verbatim>\<open>Date\<close> comparator, in
  the hardened variant by MongoDB's descending string sort, which on such dates is the
  chronological order.
\<close>

lemma listSummaries_sorted_by_date:
  assumes "validDates st" and "sheetFiles dir st"
  shows "sorted_wrt (\<lambda>x y. chronoGe (sdate x) (sdate y)) (listSummaries_main st)
     \<and> mset (listSummaries_main st) = mset (map summaryOf st)
     \<and> sorted_wrt (\<lambda>x y. chronoGe (sdate x) (sdate y)) (listSummaries_hardened st)
     \<and> mset (listSummaries_hardened st) = mset (map summaryOf st)
     \<and> sorted_wrt (\<lambda>x y. chronoGeJs (sdate x) (sdate y)) (listSummaries_file dir)
     \<and> mset (map sdate (listSummaries_file dir)) = mset (map (\<lambda>a. JStr (date a)) st)"
  using listSummaries_main_sorted [OF assms(1)] listSummaries_hardened_sorted [OF assms(1)]
    listSummaries_file_sorted [OF assms(2) assms(1)]
  by simp

lemma listSummaries_february_first:
  "validDates [\<lparr>date = ''2024-01-31'', records = [mkRecord ''Ana'' ''Present'']\<rparr>,
      \<lparr>date = ''2024-02-01'', records = [mkRecord ''Ana'' ''Late'']\<rparr>]
   \<and> sheetFiles (map sheetFile [\<lparr>date = ''2024-01-31'', records = [mkRecord ''Ana'' ''Present'']\<rparr>,
      \<lparr>date = ''2024-02-01'', records = [mkRecord ''Ana'' ''Late'']\<rparr>])
         [\<lparr>date = ''2024-01-31'', records = [mkRecord ''Ana'' ''Present'']\<rparr>,
      \<lparr>date = ''2024-02-01'', records = [mkRecord ''Ana'' ''Late'']\<rparr>]
   \<and> map sdate (listSummaries_main [\<lparr>date = ''2024-01-31'', records = [mkRecord ''Ana'' ''Present'']\<rparr>,
      \<lparr>date = ''2024-02-01'', records = [mkRecord ''Ana'' ''Late'']\<rparr>])
       = [''2024-02-01'', ''2024-01-31'']
   \<and> map sdate (listSummaries_hardened [\<lparr>date = ''2024-01-31'', records = [mkRecord ''Ana'' ''Present'']\<rparr>,
      \<lparr>date = ''2024-02-01'', records = [mkRecord ''Ana'' ''Late'']\<rparr>])
       = [''2024-02-01'', ''2024-01-31'']
   \<and> map sdate (listSummaries_file
         (map sheetFile [\<lparr>date = ''2024-01-31'', records = [mkRecord ''Ana'' ''Present'']\<rparr>,
      \<lparr>date = ''2024-02-01'', records = [mkRecord ''Ana'' ''Late'']\<rparr>]))
       = [JStr ''2024-02-01'', JStr ''2024-01-31'']
   \<and> sorted_wrt (\<lambda>x y. chronoGe (sdate x) (sdate y))
         (listSummaries_main [\<lparr>date = ''2024-01-31'', records = [mkRecord ''Ana'' ''Present'']\<rparr>,
      \<lparr>date = ''2024-02-01'', records = [mkRecord ''Ana'' ''Late'']\<rparr>])"
proof -
  let ?st = "[\<lparr>date = ''2024-01-31'', records = [mkRecord ''Ana'' ''Present'']\<rparr>,
      \<lparr>date = ''2024-02-01'', records = [mkRecord ''Ana'' ''Late'']\<rparr>]"
  have v: "validDates ?st"
    by (simp add: validDates_def mkRecord_def date_eval)
  have f: "sheetFiles (map sheetFile ?st) ?st"
    by (simp add: sheetFiles_def attendanceFiles_def isAttendanceFile_def sheetFile_def
          mkRecord_def suffix_to_prefix)
  have m: "map sdate (listSummaries_main ?st) = [''2024-02-01'', ''2024-01-31'']"
    by (simp add: listSummaries_main_def jsSort_def summaryOf_def Let_def mkRecord_def dateDiff_def
          compareResult_def date_eval)
  have h: "map sdate (listSummaries_hardened ?st) = [''2024-02-01'', ''2024-01-31'']"
    by (simp add: listSummaries_hardened_def mongoSortDateDesc_def summaryOf_def Let_def
          mkRecord_def less_eq_char_def less_char_def)
  have fl: "map sdate (listSummaries_file (map sheetFile ?st))
       = [JStr ''2024-02-01'', JStr ''2024-01-31'']"
    by (simp add: listSummaries_file_def file_eval mkRecord_def date_eval)
  show ?thesis
    using listSummaries_sorted_by_date [OF v f] v f m h fl by simp
qed

text \<open>
  C6, at the input where the hardened variant departs from it. The hardened save accepts
  every non-empty date string, and its listing is ordered by MongoDB's descending sort
  of the \<open>date\<close> strings, not by the dates they denote: after sheets for
  \<^verbatim>\<open>2024-10-01\<close> and \<^verbatim>\<open>2024-2-1\<close> have been saved, the sheet of 1 February is listed
  before the sheet of 1 October, although 1 February 2024 is the earlier day.
\<close>

theorem hardened_listSummaries_string_order:
  "upsertSheet_hardened tickingClock
       \<lparr>date = ''2024-10-01'', records = [mkRecord ''Ana'' ''Present'']\<rparr> []
     = (Inr 1,
        [\<lparr>date = ''2024-10-01'',
          records = [\<lparr>name = Some ''Ana'', status = Some ''Present'',
                      timestamp = Some ''2024-01-10T09:00:00.000Z''\<rparr>]\<rparr>])
   \<and> upsertSheet_hardened tickingClock
       \<lparr>date = ''2024-2-1'', records = [mkRecord ''Ana'' ''Late'']\<rparr>
       [\<lparr>date = ''2024-10-01'',
         records = [\<lparr>name = Some ''Ana'', status = Some ''Present'',
                     timestamp = Some ''2024-01-10T09:00:00.000Z''\<rparr>]\<rparr>]
     = (Inr 1,
        [\<lparr>date = ''2024-10-01'',
          records = [\<lparr>name = Some ''Ana'', status = Some ''Present'',
                      timestamp = Some ''2024-01-10T09:00:00.000Z''\<rparr>]\<rparr>,
         \<lparr>date = ''2024-2-1'',
          records = [\<lparr>name = Some ''Ana'', status = Some ''Late'',
                      timestamp = Some ''2024-01-10T09:00:00.000Z''\<rparr>]\<rparr>])
   \<and> map sdate (listSummaries_hardened
        [\<lparr>date = ''2024-10-01'',
          records = [\<lparr>name = Some ''Ana'', status = Some ''Present'',
                      timestamp = Some ''2024-01-10T09:00:00.000Z''\<rparr>]\<rparr>,
         \<lparr>date = ''2024-2-1'',
          records = [\<lparr>name = Some ''Ana'', status = Some ''Late'',
                      timestamp = Some ''2024-01-10T09:00:00.000Z''\<rparr>]\<rparr>])
     = [''2024-2-1'', ''2024-10-01'']
   \<and> timeOfYmd (2024, 2, 1) < timeOfYmd (2024, 10, 1)"
  by (simp add: upsertSheet_hardened_def normaliseAll_def invalidRecords_def falsy_def
        mkRecord_def normaliseRecord_def storeSheet_def findOne_def trim_def isSpace_def
        tickingClock_def listSummaries_hardened_def mongoSortDateDesc_def summaryOf_def Let_def
        less_eq_char_def less_char_def timeOfYmd_def dayFromYear_def dayWithinYear_def
        daysInMonth_def isLeap_def msPerDay_def upt_rec)

text \<open>
  C3, at the input where the file variant departs from it: a sheet saved with no records
  is summarised with an \<open>attendanceRate\<close> of \<open>NaN\<close> (0 / 0, the division being
  unguarded), where the claim and \<^verbatim>\<open>main.js\<close> give 0.
\<close>

theorem file_summary_rate_of_empty_sheet:
  "postAttendance_file (JObj [(''date'', JStr ''2024-01-10''), (''records'', JArr [])]) []
     = Some (Inr (JStr ''2024-01-10''),
             [(''attendance-2024-01-10.json'',
               JObj [(''date'', JStr ''2024-01-10''), (''records'', JArr [])])])
   \<and> listSummaries_file
         [(''attendance-2024-01-10.json'',
           JObj [(''date'', JStr ''2024-01-10''), (''records'', JArr [])])]
     = [\<lparr>sdate = JStr ''2024-01-10'', totalStudents = 0, present = 0, absent = 0,
          attendanceRate = DNaN\<rparr>]
   \<and> listSummaries_main [\<lparr>date = ''2024-01-10'', records = []\<rparr>]
     = [\<lparr>sdate = ''2024-01-10'', totalStudents = 0, present = 0, absent = 0,
          attendanceRate = Dbl 0 0\<rparr>]"
  by (simp add: postAttendance_file_def saveGuard_def fileNameOf_def writeFile_def
        listSummaries_file_def file_eval double_eval listSummaries_main_def summaryOf_def
        presentCount_def toNumber_def)

text \<open>
  C4, at the input where the file variant departs from it: \<open>absent\<close> counts the records
  whose status is \<open>Absent\<close>, so a \<open>Late\<close> record is in neither count and
  \<open>present + absent\<close> is 1 of 2 students, where \<^verbatim>\<open>main.js\<close> reports \<open>absent = 1\<close>.
\<close>

theorem file_summary_absent_skips_late:
  "listSummaries_file
     [sheetFile \<lparr>date = ''2024-01-10'',
                 records = [mkRecord ''Ana'' ''Present'', mkRecord ''Bob'' ''Late'']\<rparr>]
     = [\<lparr>sdate = JStr ''2024-01-10'', totalStudents = 2, present = 1, absent = 0,
          attendanceRate = Dbl 50 0\<rparr>]
   \<and> listSummaries_main
         [\<lparr>date = ''2024-01-10'',
           records = [mkRecord ''Ana'' ''Present'', mkRecord ''Bob'' ''Late'']\<rparr>]
     = [\<lparr>sdate = ''2024-01-10'', totalStudents = 2, present = 1, absent = 1,
          attendanceRate = Dbl 50 0\<rparr>]"
  by (simp add: listSummaries_file_def file_eval double_eval listSummaries_main_def summaryOf_def
        presentCount_def)

section \<open>Search: results\<close>

lemma includesStr_iff: "includesStr s q = (\<exists>ps ss. s = ps @ q @ ss)"
proof (induction s)
  case Nil
  then show ?case by auto
next
  case (Cons c s)
  show ?case
  proof
    assume "includesStr (c # s) q"
    then consider "prefix q (c # s)" | "includesStr s q" by auto
    then show "\<exists>ps ss. c # s = ps @ q @ ss"
    proof cases
      case 1
      then obtain ss where "c # s = q @ ss" by (auto simp add: prefix_def)
      then have "c # s = [] @ q @ ss" by simp
      then show ?thesis by blast
    next
      case 2
      then obtain ps ss where "s = ps @ q @ ss" using Cons.IH by blast
      then have "c # s = (c # ps) @ q @ ss" by simp
      then show ?thesis by blast
    qed
  next
    assume "\<exists>ps ss. c # s = ps @ q @ ss"
    then obtain ps ss where e: "c # s = ps @ q @ ss" by blast
    show "includesStr (c # s) q"
    proof (cases ps)
      case Nil
      then have "prefix q (c # s)" using e by (simp add: prefix_def)
      then show ?thesis by simp
    next
      case (Cons p ps')
      then have "s = ps' @ q @ ss" using e by simp
      then have "includesStr s q" using Cons.IH by blast
      then show ?thesis by simp
    qed
  qed
qed

lemma searchRecords_filter:
  "list_all (\<lambda>r. name r \<noteq> None) rs \<Longrightarrow>
   searchRecords (toLowerCase query) d rs =
     Some (map (\<lambda>r. \<lparr>hdate = d, hname = name r, hstatus = status r, htimestamp = timestamp r\<rparr>)
            (filter (nameMatches query) rs))"
  by (induction rs) (auto simp add: nameMatches_def)

lemma searchSheets_allMatches:
  "allNamed st \<Longrightarrow> searchSheets (toLowerCase query) st = Some (allMatches query st)"
  by (induction st) (simp_all add: allNamed_def allMatches_def searchRecords_filter)

lemma hdate_allMatches: "h \<in> set (allMatches query st) \<Longrightarrow> hdate h \<in> date ` set st"
  by (auto simp add: allMatches_def)

lemma searchByName_main_all_matches:
  assumes n: "allNamed st" and v: "validDates st"
  shows "\<exists>hits. searchByName_main query st = Inr hits
           \<and> mset hits = mset (allMatches query st)
           \<and> sorted_wrt (\<lambda>x y. chronoGe (hdate x) (hdate y)) hits"
proof -
  let ?hits = "jsSort (\<lambda>a b. dateDiff (hdate b) (hdate a)) (allMatches query st)"
  have tv: "dateValue (hdate x) \<noteq> None" if "x \<in> set (allMatches query st)" for x
  proof -
    from that obtain a where "a \<in> set st" "hdate x = date a"
      using hdate_allMatches [of x query st] by auto
    then show ?thesis
      using v by (auto simp add: validDates_def list_all_iff)
  qed
  have cmp: "\<And>a b. dateDiff (hdate b) (hdate a)
      = (case (dateValue (hdate b), dateValue (hdate a)) of (Some tb, Some ta) \<Rightarrow> Some (tb - ta) | _ \<Rightarrow> None)"
    by (simp add: dateDiff_def)
  have "searchByName_main query st = Inr ?hits"
    by (simp add: searchByName_main_def searchSheets_allMatches [OF n])
  moreover have "mset ?hits = mset (allMatches query st)"
    using tv cmp by (rule jsSort_by_time_sorted(2))
  moreover have "sorted_wrt (\<lambda>x y. chronoGe (hdate x) (hdate y)) ?hits"
    unfolding chronoGe_def using tv cmp by (rule jsSort_by_time_sorted(1))
  ultimately show ?thesis by blast
qed

text \<open>The specification's example, in \<^verbatim>\<open>main.js\<close> and in the file variant.\<close>

lemma search_example:
  "searchByName_main ''ana''
     [\<lparr>date = ''2024-01-10'', records = [mkRecord ''Ana Lee'' ''Present'']\<rparr>,
      \<lparr>date = ''2024-01-11'', records = [mkRecord ''banana'' ''Absent'']\<rparr>]
     = Inr [\<lparr>hdate = ''2024-01-11'', hname = Some ''banana'', hstatus = Some ''Absent'',
              htimestamp = None\<rparr>,
            \<lparr>hdate = ''2024-01-10'', hname = Some ''Ana Lee'', hstatus = Some ''Present'',
              htimestamp = None\<rparr>]"
  "searchByName_file ''ana''
     (map sheetFile
       [\<lparr>date = ''2024-01-10'', records = [mkRecord ''Ana Lee'' ''Present'']\<rparr>,
        \<lparr>date = ''2024-01-11'', records = [mkRecord ''banana'' ''Absent'']\<rparr>])
     = [\<lparr>hdate = JStr ''2024-01-11'', hname = JStr ''banana'', hstatus = JStr ''Absent'',
          htimestamp = Undefined\<rparr>,
        \<lparr>hdate = JStr ''2024-01-10'', hname = JStr ''Ana Lee'', hstatus = JStr ''Present'',
          htimestamp = Undefined\<rparr>]"
  by (simp_all add: searchByName_file_def fileHits_def file_eval string_eval searchByName_main_def
        dateDiff_def date_eval)

text \<open>
  C1, at the input where the file variant departs from it: of two matching records in one
  sheet, \<^verbatim>\<open>records.find\<close> keeps the first only, where the claim and \<^verbatim>\<open>main.js\<close>
  return both.
\<close>

theorem file_search_first_match_per_sheet:
  "searchByName_file ''ana''
     [sheetFile \<lparr>date = ''2024-01-10'',
                 records = [mkRecord ''Ana Lee'' ''Present'', mkRecord ''Anamika'' ''Late'']\<rparr>]
     = [\<lparr>hdate = JStr ''2024-01-10'', hname = JStr ''Ana Lee'', hstatus = JStr ''Present'',
          htimestamp = Undefined\<rparr>]
   \<and> searchByName_main ''ana''
         [\<lparr>date = ''2024-01-10'',
           records = [mkRecord ''Ana Lee'' ''Present'', mkRecord ''Anamika'' ''Late'']\<rparr>]
     = Inr [\<lparr>hdate = ''2024-01-10'', hname = Some ''Ana Lee'', hstatus = Some ''Present'',
              htimestamp = None\<rparr>,
            \<lparr>hdate = ''2024-01-10'', hname = Some ''Anamika'', hstatus = Some ''Late'',
              htimestamp = None\<rparr>]"
  by (simp add: searchByName_file_def fileHits_def file_eval string_eval searchByName_main_def
        dateDiff_def date_eval)

section \<open>Saving and reading sheets: results\<close>

lemma dates_replaceRecords: "map date (replaceRecords d rs st) = map date st"
  by (induction st) simp_all

lemma findOne_replaceRecords:
  "findOne d st = Some a \<Longrightarrow> findOne d (replaceRecords d rs st) = Some \<lparr>date = d, records = rs\<rparr>"
  by (induction st) (auto simp add: findOne_def)

lemma findOne_None_iff: "(findOne d st = None) = (d \<notin> set (map date st))"
  by (auto simp add: findOne_def find_None_iff)

lemma findOne_append_new: "findOne d st = None \<Longrightarrow> findOne d (st @ [\<lparr>date = d, records = rs\<rparr>]) = Some \<lparr>date = d, records = rs\<rparr>"
  by (induction st) (auto simp add: findOne_def split: if_splits)

lemma findOne_storeSheet:
  "findOne d (storeSheet \<lparr>date = d, records = rs\<rparr> st) = Some \<lparr>date = d, records = rs\<rparr>"
  by (cases "findOne d st")
     (simp_all add: storeSheet_def findOne_append_new findOne_replaceRecords)

lemma dates_storeSheet:
  "map date (storeSheet b st)
     = (if date b \<in> set (map date st) then map date st else map date st @ [date b])"
  by (cases "findOne (date b) st")
     (simp_all add: storeSheet_def dates_replaceRecords findOne_None_iff [symmetric]
        del: set_map)

lemma distinct_storeSheet:
  "distinct (map date st) \<Longrightarrow> distinct (map date (storeSheet b st))"
  by (simp add: dates_storeSheet del: set_map)

lemma those_normalise_from:
  "invalidRecords rs = [] \<Longrightarrow>
     those (map (\<lambda>(i, record). normaliseRecord (clock i) record) (enumerate n rs))
       = Some (map (\<lambda>(i, r). \<lparr>name = map_option trim (name r),
                                  status = map_option trim (status r),
                                  timestamp = (if falsy (timestamp r) then Some (clock i)
                                               else timestamp r)\<rparr>)
                   (enumerate n rs))"
proof (induction rs arbitrary: n)
  case Nil
  then show ?case by simp
next
  case (Cons r rs)
  from Cons.prems have r: "\<not> falsy (name r)" "\<not> falsy (status r)" and rs: "invalidRecords rs = []"
    by (simp_all add: invalidRecords_def split: if_splits)
  from r obtain nm s where "name r = Some nm" "status r = Some s"
    by (auto simp add: falsy_def split: option.splits)
  then have "normaliseRecord (clock n) r = Some \<lparr>name = map_option trim (name r),
      status = map_option trim (status r),
      timestamp = (if falsy (timestamp r) then Some (clock n) else timestamp r)\<rparr>"
    by (simp add: normaliseRecord_def)
  then show ?case
    using Cons.IH [OF rs, of "Suc n"] by simp
qed

lemma those_normalise:
  "invalidRecords rs = [] \<Longrightarrow> normaliseAll clock rs = Some (normalised clock rs)"
  by (simp add: normaliseAll_def normalised_def those_normalise_from)

lemma length_normalised: "length (normalised clock rs) = length rs"
  by (simp add: normalised_def)

lemma upsertSheet_hardened_valid:
  assumes "date body \<noteq> []" "invalidRecords (records body) = []"
  shows "upsertSheet_hardened clock body st
     = (Inr (length (records body)),
        storeSheet \<lparr>date = trim (date body), records = normalised clock (records body)\<rparr> st)"
  using assms by (simp add: upsertSheet_hardened_def those_normalise length_normalised)

lemma upsertSheet_hardened_store:
  "snd (upsertSheet_hardened clock body st) = st
   \<or> (\<exists>rs. snd (upsertSheet_hardened clock body st)
             = storeSheet \<lparr>date = trim (date body), records = rs\<rparr> st)"
  by (auto simp add: upsertSheet_hardened_def split: option.splits)

lemma upsertSheet_main_store:
  "snd (upsertSheet_main body st) = st \<or> snd (upsertSheet_main body st) = storeSheet body st"
  by (simp add: upsertSheet_main_def)

lemma distinct_upsert:
  assumes "distinct (map date st)"
  shows "distinct (map date (snd (upsertSheet_main body st)))"
    and "distinct (map date (snd (upsertSheet_hardened clock body st)))"
  using assms upsertSheet_main_store [of body st] upsertSheet_hardened_store [of clock body st]
    distinct_storeSheet [OF assms]
  by auto

lemma distinct_upserts_main:
  "distinct (map date st) \<Longrightarrow> distinct (map date (upserts_main bodies st))"
  unfolding upserts_main_def
  by (induction bodies arbitrary: st) (simp_all add: distinct_upsert)

lemma distinct_upserts_hardened:
  "distinct (map date st) \<Longrightarrow> distinct (map date (upserts_hardened calls st))"
  unfolding upserts_hardened_def
  by (induction calls arbitrary: st) (auto simp add: distinct_upsert)

lemma distinct_getDates: "distinct (map date st) \<Longrightarrow> distinct (getDates st)"
  by (simp add: getDates_def)

lemma distinct_filter_date:
  "distinct (map date st) \<Longrightarrow> length (filter (\<lambda>a. date a = d) st) \<le> 1"
  by (induction st) (auto simp add: filter_empty_conv image_iff)

lemma names_writeFile:
  "map fst (writeFile f c dir) = (if f \<in> set (map fst dir) then map fst dir else map fst dir @ [f])"
  by (auto simp add: writeFile_def case_prod_unfold)



lemma distinct_postAttendance_file:
  "distinct (map fst dir) \<Longrightarrow> postAttendance_file body dir = Some (response, dir') \<Longrightarrow>
     distinct (map fst dir')"
  by (auto simp add: postAttendance_file_def names_writeFile split: if_splits option.splits
        simp del: set_map)

lemma distinct_posts_file:
  "distinct (map fst dir) \<Longrightarrow> posts_file bodies dir = Some dir' \<Longrightarrow> distinct (map fst dir')"
proof (induction bodies arbitrary: dir)
  case Nil
  then show ?case by simp
next
  case (Cons body bodies)
  from Cons.prems(2) obtain response dir1 where
    p: "postAttendance_file body dir = Some (response, dir1)" and r: "posts_file bodies dir1 = Some dir'"
    by (auto split: option.splits)
  have "distinct (map fst dir1)"
    using Cons.prems(1) p by (rule distinct_postAttendance_file)
  then show ?case using r by (rule Cons.IH)
qed

lemma getSheet_storeSheet:
  "getSheet d (storeSheet \<lparr>date = d, records = rs\<rparr> st) = Inr \<lparr>date = d, records = rs\<rparr>"
  by (simp add: getSheet_def findOne_storeSheet)

lemma storeSheet_fresh:
  "findOne (date b) st = None \<Longrightarrow> storeSheet b st = st @ [b]"
  by (simp add: storeSheet_def)

lemma getSheet_storeSheet_body: "getSheet (date body) (storeSheet body st) = Inr body"
  by (cases body) (simp add: getSheet_storeSheet)

lemma upsertSheet_main_valid:
  "date body \<noteq> [] \<Longrightarrow> upsertSheet_main body st = (Inr (date body), storeSheet body st)"
  by (simp add: upsertSheet_main_def)

text \<open>
  C2, as amended. For every non-empty date, two upserts for the same date leave \<open>getSheet\<close>
  returning the second record set only, and an upsert for a date without a sheet appends a
  new sheet with the given records: in \<^verbatim>\<open>main.js\<close> the records exactly as given, in the
  hardened variant (for record sets that pass its validation) the second set as that
  variant normalises it (name and status trimmed, a missing or empty timestamp replaced
  by the clock reading taken for that record), under the trimmed date.
\<close>

theorem upsert_replaces_records:
  "(d \<noteq> [] \<longrightarrow>
      getSheet d (snd (upsertSheet_main \<lparr>date = d, records = R2\<rparr>
                        (snd (upsertSheet_main \<lparr>date = d, records = R1\<rparr> st))))
        = Inr \<lparr>date = d, records = R2\<rparr>)
   \<and> (d \<noteq> [] \<and> findOne d st = None \<longrightarrow>
      snd (upsertSheet_main \<lparr>date = d, records = R2\<rparr> st) = st @ [\<lparr>date = d, records = R2\<rparr>])
   \<and> (d \<noteq> [] \<and> invalidRecords R1 = [] \<and> invalidRecords R2 = [] \<longrightarrow>
      getSheet (trim d)
        (snd (upsertSheet_hardened clock2 \<lparr>date = d, records = R2\<rparr>
               (snd (upsertSheet_hardened clock1 \<lparr>date = d, records = R1\<rparr> st))))
        = Inr \<lparr>date = trim d, records = normalised clock2 R2\<rparr>)
   \<and> (d \<noteq> [] \<and> invalidRecords R2 = [] \<and> findOne (trim d) st = None \<longrightarrow>
      snd (upsertSheet_hardened clock2 \<lparr>date = d, records = R2\<rparr> st)
        = st @ [\<lparr>date = trim d, records = normalised clock2 R2\<rparr>])"
  by (simp add: upsertSheet_main_valid upsertSheet_hardened_valid getSheet_storeSheet
        storeSheet_fresh)

theorem upsert_replaces_records_witness:
  "getSheet ''2024-01-10''
     (snd (upsertSheet_main
             \<lparr>date = ''2024-01-10'', records = [mkRecord ''Bob'' ''Late'', mkRecord ''Cy'' ''Absent'']\<rparr>
            (snd (upsertSheet_main
                    \<lparr>date = ''2024-01-10'', records = [mkRecord ''Ana'' ''Present'']\<rparr> []))))
     = Inr \<lparr>date = ''2024-01-10'', records = [mkRecord ''Bob'' ''Late'', mkRecord ''Cy'' ''Absent'']\<rparr>
   \<and> snd (upsertSheet_main
            \<lparr>date = ''2024-01-10'', records = [mkRecord ''Bob'' ''Late'', mkRecord ''Cy'' ''Absent'']\<rparr> [])
     = [\<lparr>date = ''2024-01-10'', records = [mkRecord ''Bob'' ''Late'', mkRecord ''Cy'' ''Absent'']\<rparr>]
   \<and> getSheet ''2024-01-10''
     (snd (upsertSheet_hardened tickingClock
            \<lparr>date = ''2024-01-10'', records = [mkRecord ''Bob'' ''Late'', mkRecord ''Cy'' ''Absent'']\<rparr>
            (snd (upsertSheet_hardened (\<lambda>i. ''2024-01-10T08:00:00.000Z'')
                    \<lparr>date = ''2024-01-10'', records = [mkRecord ''Ana'' ''Present'']\<rparr> []))))
     = Inr \<lparr>date = ''2024-01-10'',
            records = [\<lparr>name = Some ''Bob'', status = Some ''Late'',
                        timestamp = Some ''2024-01-10T09:00:00.000Z''\<rparr>,
                       \<lparr>name = Some ''Cy'', status = Some ''Absent'',
                        timestamp = Some ''2024-01-10T09:00:00.001Z''\<rparr>]\<rparr>
   \<and> snd (upsertSheet_hardened tickingClock
            \<lparr>date = ''2024-01-10'', records = [mkRecord ''Bob'' ''Late'', mkRecord ''Cy'' ''Absent'']\<rparr> [])
     = [\<lparr>date = ''2024-01-10'',
         records = [\<lparr>name = Some ''Bob'', status = Some ''Late'',
                     timestamp = Some ''2024-01-10T09:00:00.000Z''\<rparr>,
                    \<lparr>name = Some ''Cy'', status = Some ''Absent'',
                     timestamp = Some ''2024-01-10T09:00:00.001Z''\<rparr>]\<rparr>]"
  using upsert_replaces_records [of "''2024-01-10''"
          "[mkRecord ''Bob'' ''Late'', mkRecord ''Cy'' ''Absent'']"
          "[mkRecord ''Ana'' ''Present'']" "[]" tickingClock
          "\<lambda>i. ''2024-01-10T08:00:00.000Z''"]
  by (simp add: invalidRecords_def falsy_def mkRecord_def findOne_def normalised_def trim_def
        isSpace_def tickingClock_def)

text \<open>
  C2 as stated fails in the hardened variant: the stored records are the normalised ones
  (name trimmed, timestamp filled in), not exactly the records given.
\<close>

theorem hardened_upsert_normalises_records:
  "getSheet ''2024-01-10''
     (snd (upsertSheet_hardened (\<lambda>i. ''2024-01-10T09:00:00.000Z'')
            \<lparr>date = ''2024-01-10'',
              records = [\<lparr>name = Some '' Bob '', status = Some ''Late'', timestamp = None\<rparr>]\<rparr>
            (snd (upsertSheet_hardened (\<lambda>i. ''2024-01-10T08:00:00.000Z'')
                    \<lparr>date = ''2024-01-10'', records = [mkRecord ''Ana'' ''Present'']\<rparr> []))))
     = Inr \<lparr>date = ''2024-01-10'',
            records = [\<lparr>name = Some ''Bob'', status = Some ''Late'',
                        timestamp = Some ''2024-01-10T09:00:00.000Z''\<rparr>]\<rparr>
   \<and> [\<lparr>name = Some ''Bob'', status = Some ''Late'',
        timestamp = Some ''2024-01-10T09:00:00.000Z''\<rparr>]
     \<noteq> [\<lparr>name = Some '' Bob '', status = Some ''Late'', timestamp = None\<rparr>]"
  by (simp add: upsertSheet_hardened_def normaliseAll_def invalidRecords_def falsy_def
        mkRecord_def normaliseRecord_def storeSheet_def findOne_def getSheet_def trim_def
        isSpace_def)

lemma timestamp_normalised:
  "i < length rs \<Longrightarrow>
     timestamp (normalised clock rs ! i)
       = (if falsy (timestamp (rs ! i)) then Some (clock i) else timestamp (rs ! i))"
  by (simp add: normalised_def nth_enumerate_eq)

text \<open>
  C9, as amended. In the hardened variant every accepted \<open>upsertSheet\<close> stores, for each
  record whose timestamp is absent or empty, the time read from the clock while that
  record is processed (\<open>clock i\<close> for the record at index \<open>i\<close>), and leaves every other
  timestamp unchanged; \<^verbatim>\<open>main.js\<close> stores the records as received.
\<close>

theorem hardened_upsert_defaults_timestamp:
  "(upsertSheet_hardened clock body st = (Inr n, st') \<longrightarrow>
      (\<exists>a. getSheet (trim (date body)) st' = Inr a
         \<and> length (records a) = length (records body)
         \<and> (\<forall>i < length (records body).
               timestamp (records a ! i)
                 = (if falsy (timestamp (records body ! i)) then Some (clock i)
                    else timestamp (records body ! i)))))
   \<and> (date body \<noteq> [] \<longrightarrow>
        getSheet (date body) (snd (upsertSheet_main body st)) = Inr body)"
proof (intro conjI impI)
  assume u: "upsertSheet_hardened clock body st = (Inr n, st')"
  then have d: "date body \<noteq> []" and v: "invalidRecords (records body) = []"
    by (auto simp add: upsertSheet_hardened_def split: if_splits)
  have st': "st' = storeSheet \<lparr>date = trim (date body), records = normalised clock (records body)\<rparr> st"
    using u upsertSheet_hardened_valid [OF d v, of clock st] by simp
  have "getSheet (trim (date body)) st'
      = Inr \<lparr>date = trim (date body), records = normalised clock (records body)\<rparr>"
    unfolding st' by (rule getSheet_storeSheet)
  then show "\<exists>a. getSheet (trim (date body)) st' = Inr a
         \<and> length (records a) = length (records body)
         \<and> (\<forall>i < length (records body).
               timestamp (records a ! i)
                 = (if falsy (timestamp (records body ! i)) then Some (clock i)
                    else timestamp (records body ! i)))"
    by (simp add: timestamp_normalised length_normalised)
next
  assume "date body \<noteq> []"
  then show "getSheet (date body) (snd (upsertSheet_main body st)) = Inr body"
    by (simp add: upsertSheet_main_valid getSheet_storeSheet_body)
qed

theorem hardened_upsert_defaults_timestamp_witness:
  "upsertSheet_hardened tickingClock
     \<lparr>date = ''2024-01-10'',
       records = [mkRecord ''Ana'' ''Present'',
                  \<lparr>name = Some ''Bob'', status = Some ''Late'',
                    timestamp = Some ''2024-01-10T07:30:00.000Z''\<rparr>,
                  mkRecord ''Cy'' ''Absent'']\<rparr> []
     = (Inr 3,
        [\<lparr>date = ''2024-01-10'',
          records = [\<lparr>name = Some ''Ana'', status = Some ''Present'',
                      timestamp = Some ''2024-01-10T09:00:00.000Z''\<rparr>,
                     \<lparr>name = Some ''Bob'', status = Some ''Late'',
                      timestamp = Some ''2024-01-10T07:30:00.000Z''\<rparr>,
                     \<lparr>name = Some ''Cy'', status = Some ''Absent'',
                      timestamp = Some ''2024-01-10T09:00:00.001Z''\<rparr>]\<rparr>])
   \<and> (\<exists>a. getSheet ''2024-01-10''
               [\<lparr>date = ''2024-01-10'',
                 records = [\<lparr>name = Some ''Ana'', status = Some ''Present'',
                             timestamp = Some ''2024-01-10T09:00:00.000Z''\<rparr>,
                            \<lparr>name = Some ''Bob'', status = Some ''Late'',
                             timestamp = Some ''2024-01-10T07:30:00.000Z''\<rparr>,
                            \<lparr>name = Some ''Cy'', status = Some ''Absent'',
                             timestamp = Some ''2024-01-10T09:00:00.001Z''\<rparr>]\<rparr>] = Inr a
          \<and> map timestamp (records a)
              = [Some ''2024-01-10T09:00:00.000Z'', Some ''2024-01-10T07:30:00.000Z'',
                 Some ''2024-01-10T09:00:00.001Z''])"
proof -
  let ?body = "\<lparr>date = ''2024-01-10'',
       records = [mkRecord ''Ana'' ''Present'',
                  \<lparr>name = Some ''Bob'', status = Some ''Late'',
                    timestamp = Some ''2024-01-10T07:30:00.000Z''\<rparr>,
                  mkRecord ''Cy'' ''Absent'']\<rparr>"
  let ?st' = "[\<lparr>date = ''2024-01-10'',
          records = [\<lparr>name = Some ''Ana'', status = Some ''Present'',
                      timestamp = Some ''2024-01-10T09:00:00.000Z''\<rparr>,
                     \<lparr>name = Some ''Bob'', status = Some ''Late'',
                      timestamp = Some ''2024-01-10T07:30:00.000Z''\<rparr>,
                     \<lparr>name = Some ''Cy'', status = Some ''Absent'',
                      timestamp = Some ''2024-01-10T09:00:00.001Z''\<rparr>]\<rparr>]"
  have u: "upsertSheet_hardened tickingClock ?body [] = (Inr 3, ?st')"
    by (simp add: upsertSheet_hardened_def normaliseAll_def invalidRecords_def falsy_def
          mkRecord_def normaliseRecord_def storeSheet_def findOne_def trim_def isSpace_def
          tickingClock_def)
  have g: "getSheet ''2024-01-10'' ?st' = Inr (hd ?st')"
    by (simp add: getSheet_def findOne_def)
  show ?thesis
    using hardened_upsert_defaults_timestamp [of tickingClock ?body "[]" 3 ?st'] u g
    by simp
qed

text \<open>
  C9 as stated fails in \<^verbatim>\<open>main.js\<close>: a record saved without a timestamp is stored
  without one.
\<close>

theorem main_upsert_leaves_timestamp_missing:
  "getSheet ''2024-01-10''
     (snd (upsertSheet_main
             \<lparr>date = ''2024-01-10'',
               records = [\<lparr>name = Some ''Ana'', status = Some ''Present'', timestamp = None\<rparr>]\<rparr>
             []))
     = Inr \<lparr>date = ''2024-01-10'',
            records = [\<lparr>name = Some ''Ana'', status = Some ''Present'', timestamp = None\<rparr>]\<rparr>"
  by (simp add: upsertSheet_main_def storeSheet_def findOne_def getSheet_def)

lemma removeFirst_prefix: "q \<noteq> [] \<Longrightarrow> removeFirst q (q @ s) = s"
  by (cases q) simp_all

lemma removeFirst_suffix: "q \<noteq> [] \<Longrightarrow> hd q \<notin> set d \<Longrightarrow> removeFirst q (d @ q) = d"
proof (induction d)
  case Nil
  then show ?case using removeFirst_prefix [of q "[]"] by simp
next
  case (Cons c d)
  then have "\<not> prefix q (c # d @ q)"
    by (cases q) auto
  then show ?case using Cons by simp
qed

lemma strip_file_name:
  "CHR ''.'' \<notin> set d \<Longrightarrow>
     removeFirst ''.json'' (removeFirst ''attendance-'' (''attendance-'' @ d @ ''.json'')) = d"
  using removeFirst_prefix [of "''attendance-''" "d @ ''.json''"]
    removeFirst_suffix [of "''.json''" d]
  by simp

lemma getDates_file_dates: "fileDates dir ds \<Longrightarrow> getDates_file dir = rev (sort ds)"
proof -
  assume f: "fileDates dir ds"
  then have "map (\<lambda>file. removeFirst ''.json'' (removeFirst ''attendance-'' file))
               (map fst (attendanceFiles dir))
             = map (\<lambda>d. removeFirst ''.json'' (removeFirst ''attendance-'' (''attendance-'' @ d @ ''.json''))) ds"
    by (simp add: fileDates_def o_def)
  also have "\<dots> = map (\<lambda>d. d) ds"
    using f by (intro map_cong) (auto simp add: fileDates_def list_all_iff strip_file_name simp del: append.simps removeFirst.simps)
  finally show ?thesis
    by (simp add: getDates_file_def)
qed

lemma distinct_attendanceFiles:
  "distinct (map fst dir) \<Longrightarrow> distinct (map fst (attendanceFiles dir))"
  by (simp add: attendanceFiles_def distinct_map_filter)

lemma distinct_getDates_file:
  assumes "distinct (map fst dir)" "fileDates dir ds"
  shows "distinct (getDates_file dir)"
proof -
  have "distinct (map (\<lambda>d. ''attendance-'' @ d @ ''.json'') ds)"
    using distinct_attendanceFiles [OF assms(1)] assms(2) by (simp add: fileDates_def)
  then have "distinct ds"
    by (simp add: distinct_map)
  then show ?thesis
    by (simp add: getDates_file_dates [OF assms(2)])
qed

text \<open>
  Starting from the empty store, after any sequence of \<open>upsertSheet\<close> calls the dates
  of the sheets are pairwise distinct, \<open>getDates\<close> has no duplicate and at most one
  sheet answers \<open>getSheet\<close> for a date, in \<^verbatim>\<open>main.js\<close> and in the hardened variant;
  every single upsert preserves the invariant. In the file variant there is one file per
  name, and its \<open>getDates\<close> has no duplicate when the files are those of dates without
  a dot.
\<close>

lemma sheet_dates_stay_unique:
  "distinct (map date (upserts_main bodies []))
   \<and> distinct (getDates (upserts_main bodies []))
   \<and> length (filter (\<lambda>a. date a = d) (upserts_main bodies [])) \<le> 1
   \<and> distinct (map date (upserts_hardened calls []))
   \<and> distinct (getDates (upserts_hardened calls []))
   \<and> length (filter (\<lambda>a. date a = d) (upserts_hardened calls [])) \<le> 1
   \<and> (posts_file posts [] = Some dir \<longrightarrow> distinct (map fst dir))
   \<and> (posts_file posts [] = Some dir \<and> fileDates dir ds \<longrightarrow> distinct (getDates_file dir))
   \<and> (distinct (map date st) \<longrightarrow>
        distinct (map date (snd (upsertSheet_main body st)))
        \<and> distinct (map date (snd (upsertSheet_hardened clock body st))))"
proof -
  have m: "distinct (map date (upserts_main bodies []))"
    by (rule distinct_upserts_main) simp
  have h: "distinct (map date (upserts_hardened calls []))"
    by (rule distinct_upserts_hardened) simp
  have f: "posts_file posts [] = Some dir \<longrightarrow> distinct (map fst dir)"
    using distinct_posts_file [of "[]" posts dir] by simp
  have g: "posts_file posts [] = Some dir \<and> fileDates dir ds \<longrightarrow> distinct (getDates_file dir)"
    using f distinct_getDates_file [of dir ds] by simp
  show ?thesis
    using m h f g distinct_getDates [OF m] distinct_getDates [OF h]
      distinct_filter_date [OF m, of d] distinct_filter_date [OF h, of d]
      distinct_upsert
    by simp
qed

lemma sheet_dates_stay_unique_example:
  "upserts_main [mkSheet ''2024-01-10'' 1 2, mkSheet ''2024-01-11'' 1 1, mkSheet ''2024-01-10'' 0 1] []
     = [mkSheet ''2024-01-10'' 0 1, mkSheet ''2024-01-11'' 1 1]
   \<and> getDates (upserts_main
        [mkSheet ''2024-01-10'' 1 2, mkSheet ''2024-01-11'' 1 1, mkSheet ''2024-01-10'' 0 1] [])
     = [''2024-01-11'', ''2024-01-10'']
   \<and> distinct (getDates (upserts_main
        [mkSheet ''2024-01-10'' 1 2, mkSheet ''2024-01-11'' 1 1, mkSheet ''2024-01-10'' 0 1] []))
   \<and> posts_file [sheetJson (mkSheet ''2024-01-10'' 1 2), sheetJson (mkSheet ''2024-01-10'' 0 1)] []
     = Some [sheetFile (mkSheet ''2024-01-10'' 0 1)]
   \<and> distinct (map fst [sheetFile (mkSheet ''2024-01-10'' 0 1)])
   \<and> fileDates [sheetFile (mkSheet ''2024-01-10'' 0 1)] [''2024-01-10'']
   \<and> getDates_file [sheetFile (mkSheet ''2024-01-10'' 0 1)] = [''2024-01-10'']
   \<and> distinct (map date [mkSheet ''2024-01-10'' 0 1])
   \<and> distinct (map date (snd (upsertSheet_main (mkSheet ''2024-01-10'' 1 2) [mkSheet ''2024-01-10'' 0 1])))"
proof -
  let ?bodies = "[mkSheet ''2024-01-10'' 1 2, mkSheet ''2024-01-11'' 1 1, mkSheet ''2024-01-10'' 0 1]"
  let ?posts = "[sheetJson (mkSheet ''2024-01-10'' 1 2), sheetJson (mkSheet ''2024-01-10'' 0 1)]"
  have u: "upserts_main ?bodies [] = [mkSheet ''2024-01-10'' 0 1, mkSheet ''2024-01-11'' 1 1]"
    by (simp add: upserts_main_def upsertSheet_main_def storeSheet_def findOne_def mkSheet_def)
  have g: "getDates [mkSheet ''2024-01-10'' 0 1, mkSheet ''2024-01-11'' 1 1]
      = [''2024-01-11'', ''2024-01-10'']"
    by (simp add: getDates_def mkSheet_def less_eq_char_def less_char_def)
  have p: "posts_file ?posts [] = Some [sheetFile (mkSheet ''2024-01-10'' 0 1)]"
    by (simp add: postAttendance_file_def saveGuard_def getProp_def fileNameOf_def writeFile_def
          sheetFile_def sheetJson_def mkSheet_def)
  have d: "distinct (map date [mkSheet ''2024-01-10'' 0 1])"
    by simp
  have fd: "fileDates [sheetFile (mkSheet ''2024-01-10'' 0 1)] [''2024-01-10'']"
    by (simp add: fileDates_def attendanceFiles_def isAttendanceFile_def sheetFile_def
          mkSheet_def suffix_to_prefix)
  have gf: "getDates_file [sheetFile (mkSheet ''2024-01-10'' 0 1)] = [''2024-01-10'']"
    by (simp add: getDates_file_def attendanceFiles_def isAttendanceFile_def sheetFile_def
          mkSheet_def suffix_to_prefix)
  show ?thesis
    using sheet_dates_stay_unique [of ?bodies "''2024-01-10''" "[]" ?posts
            "[sheetFile (mkSheet ''2024-01-10'' 0 1)]" "[''2024-01-10'']"
            "[mkSheet ''2024-01-10'' 0 1]"
            "mkSheet ''2024-01-10'' 1 2" tickingClock]
          u g p d fd gf
    by simp
qed

text \<open>
  C8, at the input where the file variant departs from it. Two saves for the distinct
  dates \<^verbatim>\<open>ab.json\<close> and \<^verbatim>\<open>a.jsonb\<close> write two files, and \<open>getDates\<close> answers with the
  same date twice: it derives a date from a file name by removing the first occurrence
  of \<^verbatim>\<open>.json\<close>, which in \<^verbatim>\<open>attendance-a.jsonb.json\<close> is not the extension. The
  sheet saved for \<^verbatim>\<open>a.jsonb\<close> is not among the listed dates.
\<close>

theorem file_getDates_repeats_a_date:
  "posts_file [JObj [(''date'', JStr ''ab.json''), (''records'', JArr [])],
               JObj [(''date'', JStr ''a.jsonb''), (''records'', JArr [])]] []
     = Some [(''attendance-ab.json.json'',
              JObj [(''date'', JStr ''ab.json''), (''records'', JArr [])]),
             (''attendance-a.jsonb.json'',
              JObj [(''date'', JStr ''a.jsonb''), (''records'', JArr [])])]
   \<and> getDates_file
         [(''attendance-ab.json.json'',
           JObj [(''date'', JStr ''ab.json''), (''records'', JArr [])]),
          (''attendance-a.jsonb.json'',
           JObj [(''date'', JStr ''a.jsonb''), (''records'', JArr [])])]
     = [''ab.json'', ''ab.json'']
   \<and> getSheet_file ''a.jsonb''
         [(''attendance-ab.json.json'',
           JObj [(''date'', JStr ''ab.json''), (''records'', JArr [])]),
          (''attendance-a.jsonb.json'',
           JObj [(''date'', JStr ''a.jsonb''), (''records'', JArr [])])]
     = Some (Inr (JObj [(''date'', JStr ''a.jsonb''), (''records'', JArr [])]))"
  by (simp add: postAttendance_file_def saveGuard_def getProp_def fileNameOf_def writeFile_def
        getDates_file_def attendanceFiles_def isAttendanceFile_def suffix_to_prefix
        getSheet_file_def)

section \<open>Batch delete: results\<close>

lemma findOneAndDelete_None:
  "findOneAndDelete P ro = (None, ro') \<Longrightarrow> ro' = ro \<and> (\<forall>s\<in>set ro. \<not> P s)"
  by (induction ro arbitrary: ro') (auto split: if_splits prod.splits)

lemma findOneAndDelete_Some:
  "findOneAndDelete P ro = (Some s, ro') \<Longrightarrow> P s \<and> mset ro = add_mset s (mset ro')"
  by (induction ro arbitrary: ro') (auto split: if_splits prod.splits)

text \<open>Whatever the queries do, the students that leave the roster are the deleted ones.\<close>

lemma deleteEach_results:
  "deleteEach legacy12 ids ro = (results, ro') \<Longrightarrow>
     length results = length ids \<and> mset ro = mset ro' + mset (deletedOf results)"
proof (induction ids arbitrary: ro results ro')
  case Nil
  then show ?case by simp
next
  case (Cons i ids)
  obtain result ro1 where f: "deleteOne legacy12 i ro = (result, ro1)"
    by (cases "deleteOne legacy12 i ro")
  obtain rest ro2 where r: "deleteEach legacy12 ids ro1 = (rest, ro2)"
    by (cases "deleteEach legacy12 ids ro1")
  from Cons.prems f r have res: "results = result # rest" and ro': "ro' = ro2"
    by simp_all
  note ih = Cons.IH [OF r]
  show ?case
  proof (cases "castObjectId legacy12 i")
    case None
    then show ?thesis
      using f ih res ro' by (simp add: deleteOne_def)
  next
    case (Some oid)
    obtain found ro3 where d: "findOneAndDelete (idMatches oid i) ro = (found, ro3)"
      by (cases "findOneAndDelete (idMatches oid i) ro")
    from f Some d have result: "result = Resolved found" and ro1: "ro1 = ro3"
      by (simp_all add: deleteOne_def)
    show ?thesis
    proof (cases found)
      case None
      then show ?thesis
        using findOneAndDelete_None [of "idMatches oid i" ro ro3] d ih res ro' result ro1
        by simp
    next
      case (Some s)
      then show ?thesis
        using findOneAndDelete_Some [of "idMatches oid i" ro s ro3] d ih res ro' result ro1
        by simp
    qed
  qed
qed

text \<open>
  By storage identity the batch works as the specification describes: two students
  deleted, one identifier not found; and a batch of which no identifier resolves is
  answered with 404.
\<close>

lemma deleteBatch_by_storage_identity:
  "deleteBatch legacy12
     (JArr [JStr ''65a000000000000000000001'', JStr ''65A000000000000000000002'',
            JStr ''65a0000000000000000000ff'']) exampleRoster
     = Some (Inr \<lparr>deletedCount = 2, notFoundCount = 1,
                   deletedStudents = [(''Ana'', ''S1'', ''A''), (''Bob'', ''S2'', ''A'')]\<rparr>, [])"
  "deleteBatch legacy12 (JArr [JStr ''65a0000000000000000000ff'']) exampleRoster
     = Some (Inl NotFound, exampleRoster)"
  "deleteBatch legacy12 (JArr []) exampleRoster = Some (Inl BadRequest, exampleRoster)"
  "deleteBatch legacy12 Undefined exampleRoster = Some (Inl BadRequest, exampleRoster)"
  "deleteBatch legacy12 (JStr ''S1'') exampleRoster = Some (Inl BadRequest, exampleRoster)"
  by (simp_all add: deleteBatch_def deleteOne_def castObjectId_def isHexDigit_def idMatches_def
        exampleRoster_def toLowerCase_def isUpper_def less_eq_char_def trim_def isSpace_def)

text \<open>
  C7, at the input where the code departs from it. For the specification's example,
  \<^verbatim>\<open>deleteBatch(["S1","S2","doesnotexist"])\<close> against a roster containing S1 and S2, the
  request is answered with 500 and no student is deleted, under either reading of
  12-character strings: \<^verbatim>\<open>S1\<close> is not an ObjectId, so the filter with \<^verbatim>\<open>_id: "S1"\<close>
  is refused before the \<open>studentId\<close> alternative is ever tried.
\<close>

theorem deleteBatch_by_studentId_fails:
  "deleteBatch False (JArr [JStr ''S1'', JStr ''S2'', JStr ''doesnotexist'']) exampleRoster
     = Some (Inl InternalError, exampleRoster)
   \<and> deleteBatch True (JArr [JStr ''S1'', JStr ''S2'', JStr ''doesnotexist'']) exampleRoster
     = Some (Inl InternalError, exampleRoster)"
  by (simp add: deleteBatch_def deleteOne_def castObjectId_def isHexDigit_def idMatches_def
        exampleRoster_def hexDigits_def less_eq_char_def trim_def isSpace_def)

theorem deleteBatch_by_studentId_fails_witness:
  "truthy (JArr [JStr ''S1'', JStr ''S2'', JStr ''doesnotexist''])
   \<and> isArray (JArr [JStr ''S1'', JStr ''S2'', JStr ''doesnotexist''])
   \<and> map_option fst
         (deleteBatch False (JArr [JStr ''S1'', JStr ''S2'', JStr ''doesnotexist'']) exampleRoster)
       = Some (Inl InternalError)
   \<and> map_option snd
         (deleteBatch True (JArr [JStr ''S1'', JStr ''S2'', JStr ''doesnotexist'']) exampleRoster)
       = Some exampleRoster"
  using deleteBatch_by_studentId_fails by simp

section \<open>Validation of the unhardened save: results\<close>


text \<open>On a well-formed body the handler of \<^verbatim>\<open>main.js\<close> is the typed upsert.\<close>

lemma getProp_recordJson:
  "getProp (recordJson r) ''name'' = optJs (name r)"
  "getProp (recordJson r) ''status'' = optJs (status r)"
  "getProp (recordJson r) ''timestamp'' = optJs (timestamp r)"
  "getProp (recordJson r) ''_id'' = Undefined"
  by (simp_all add: getProp_def field_recordJson)
     (simp add: recordJson_def optJson_def split: option.splits)

lemma fieldString_optJs: "fieldString (optJs v) = Some v"
  by (cases v) (simp_all add: optJs_def)

lemma castRecord_recordJson: "castRecord (recordJson r) = Cast r"
proof -
  obtain kvs where k: "recordJson r = JObj kvs"
    by (simp add: recordJson_def)
  have "castRecord (JObj kvs) = Cast r"
    using getProp_recordJson [of r] by (simp add: k fieldString_optJs)
  then show ?thesis by (simp add: k)
qed

lemma castEach_recordJson: "castEach (map recordJson rs) = Cast rs"
  by (induction rs) (simp_all add: castRecord_recordJson)

lemma postAttendance_main_sheetJson:
  "postAttendance_main (sheetJson a) st
     = Some (case upsertSheet_main a st of (r, st') \<Rightarrow> (map_sum id JStr r, st'))"
  by (cases a)
     (simp add: postAttendance_main_def saveGuard_def castBody_def castRecords_def sheetJson_def
        getProp_def castEach_recordJson upsertSheet_main_def)




end
